theory Spec2Isabelle
  imports Main "HOL-Library.Word"
begin

unbundle bit_operations_syntax

section \<open>Machine types\<close>

type_synonym u8 = "8 word"
type_synonym u16 = "16 word"
type_synonym u32 = "32 word"

section \<open>Cell and Color records (charvdev header)\<close>

text \<open>
  \<^verbatim>\<open>struct Color { uint8_t red; uint8_t blue; uint8_t green; };\<close>
  The fields are kept in the order of the declaration: blue comes before green.
\<close>

record Color =
  red :: u8
  blue :: u8
  green :: u8

text \<open>
  \<^verbatim>\<open>struct Cell { uint16_t uc_pt; uint16_t attrs; Color fg; uint8_t fill2_;
                 Color bg; uint8_t fill3_; };\<close>
  The two filler members are named \<open>fill2\<close> and \<open>fill3\<close> here, since an Isabelle name
  cannot end with an underscore. \<open>main.cc\<close> refers to the two records as
  \<open>CharVdev::Color\<close> and \<open>CharVdev::Cell\<close>.
\<close>

record Cell =
  uc_pt :: u16
  attrs :: u16
  fg :: Color
  fill2 :: u8
  bg :: Color
  fill3 :: u8

text \<open>
  Aggregate initialisation \<^verbatim>\<open>Color c = {a, b, c}\<close> fills the members in
  declaration order.
\<close>

definition Color_init :: "u8 \<Rightarrow> u8 \<Rightarrow> u8 \<Rightarrow> Color" where
  "Color_init a b c = \<lparr>red = a, blue = b, green = c\<rparr>"

subsection \<open>Object layout of a standard-layout struct\<close>

text \<open>
  A member declaration is its name, its size and its alignment in bytes. Members are
  placed in declaration order, each at the next offset that is a multiple of its
  alignment; the struct's alignment is the largest member alignment and its size is the
  end of the last member rounded up to that alignment. \<open>static_assert (sizeof (Cell) == 12)\<close>
  of the source is a statement about this size.
\<close>

type_synonym member_decl = "string \<times> nat \<times> nat"

definition align_up :: "nat \<Rightarrow> nat \<Rightarrow> nat" where
  "align_up a n = ((n + a - 1) div a) * a"

fun member_offsets :: "nat \<Rightarrow> member_decl list \<Rightarrow> (string \<times> nat) list" where
  "member_offsets cur [] = []"
| "member_offsets cur ((nm, sz, al) # ms) =
     (nm, align_up al cur) # member_offsets (align_up al cur + sz) ms"

fun members_end :: "nat \<Rightarrow> member_decl list \<Rightarrow> nat" where
  "members_end cur [] = cur"
| "members_end cur ((nm, sz, al) # ms) = members_end (align_up al cur + sz) ms"

definition struct_align :: "member_decl list \<Rightarrow> nat" where
  "struct_align ms = foldr max (map (\<lambda>(nm, sz, al). al) ms) 1"

definition sizeof_struct :: "member_decl list \<Rightarrow> nat" where
  "sizeof_struct ms = align_up (struct_align ms) (members_end 0 ms)"

definition Color_decl :: "member_decl list" where
  "Color_decl = [(''red'', 1, 1), (''blue'', 1, 1), (''green'', 1, 1)]"

definition Cell_decl :: "member_decl list" where
  "Cell_decl =
     [(''uc_pt'', 2, 2),
      (''attrs'', 2, 2),
      (''fg'', sizeof_struct Color_decl, struct_align Color_decl),
      (''fill2_'', 1, 1),
      (''bg'', sizeof_struct Color_decl, struct_align Color_decl),
      (''fill3_'', 1, 1)]"

text \<open>
  The object representation: the members' bytes at their offsets, with padding bytes
  (of unspecified content \<open>pad\<close>) wherever the layout leaves a gap.
\<close>

fun struct_image :: "u8 \<Rightarrow> nat \<Rightarrow> (member_decl \<times> u8 list) list \<Rightarrow> u8 list" where
  "struct_image pad cur [] = []"
| "struct_image pad cur (((nm, sz, al), bs) # ms) =
     replicate (align_up al cur - cur) pad @ take sz (bs @ replicate sz pad)
       @ struct_image pad (align_up al cur + sz) ms"

definition struct_bytes :: "u8 \<Rightarrow> member_decl list \<Rightarrow> u8 list list \<Rightarrow> u8 list" where
  "struct_bytes pad ms vals =
     (let body = struct_image pad 0 (zip ms vals)
      in body @ replicate (sizeof_struct ms - length body) pad)"

definition u16_bytes :: "u16 \<Rightarrow> u8 list" where
  "u16_bytes w = [ucast w, ucast (drop_bit 8 w)]"

definition Color_bytes :: "u8 \<Rightarrow> Color \<Rightarrow> u8 list" where
  "Color_bytes pad c = struct_bytes pad Color_decl ([red c] # [blue c] # [green c] # [])"

definition Cell_bytes :: "u8 \<Rightarrow> Cell \<Rightarrow> u8 list" where
  "Cell_bytes pad c =
     struct_bytes pad Cell_decl
       [u16_bytes (uc_pt c), u16_bytes (attrs c), Color_bytes pad (fg c), [fill2 c],
        Color_bytes pad (bg c), [fill3 c]]"

subsection \<open>The attribute bits\<close>

text \<open>
  \<open>main.cc\<close> assigns \<open>cells [k].bold\<close>, \<open>.underline\<close> and \<open>.inverse\<close>: one-bit members
  packed into the 16-bit attribute field. The declaration that fixes which bit each of
  them occupies is not part of the sources at hand, so the bit positions are a
  parameter of the model.
\<close>

record AttrBits =
  bold_bit :: nat
  underline_bit :: nat
  inverse_bit :: nat

text \<open>Storing to a one-bit member keeps the lowest bit of the value stored.\<close>

definition store_bit :: "nat \<Rightarrow> u32 \<Rightarrow> u16 \<Rightarrow> u16" where
  "store_bit k v w = (if bit v 0 then set_bit k w else unset_bit k w)"

definition set_bold :: "AttrBits \<Rightarrow> u32 \<Rightarrow> Cell \<Rightarrow> Cell" where
  "set_bold L v c = c\<lparr>attrs := store_bit (bold_bit L) v (attrs c)\<rparr>"

definition set_underline :: "AttrBits \<Rightarrow> u32 \<Rightarrow> Cell \<Rightarrow> Cell" where
  "set_underline L v c = c\<lparr>attrs := store_bit (underline_bit L) v (attrs c)\<rparr>"

definition set_inverse :: "AttrBits \<Rightarrow> u32 \<Rightarrow> Cell \<Rightarrow> Cell" where
  "set_inverse L v c = c\<lparr>attrs := store_bit (inverse_bit L) v (attrs c)\<rparr>"

definition get_bold :: "AttrBits \<Rightarrow> Cell \<Rightarrow> bool" where
  "get_bold L c = bit (attrs c) (bold_bit L)"

definition get_underline :: "AttrBits \<Rightarrow> Cell \<Rightarrow> bool" where
  "get_underline L c = bit (attrs c) (underline_bit L)"

definition get_inverse :: "AttrBits \<Rightarrow> Cell \<Rightarrow> bool" where
  "get_inverse L c = bit (attrs c) (inverse_bit L)"

definition AttrBits_ok :: "AttrBits \<Rightarrow> bool" where
  "AttrBits_ok L =
     (bold_bit L < 16 \<and> underline_bit L < 16 \<and> inverse_bit L < 16 \<and>
      distinct [bold_bit L, underline_bit L, inverse_bit L])"

section \<open>The Font class (font header)\<close>

text \<open>
  \<^verbatim>\<open>struct AtlasPos { uint8_t x; uint8_t y; };\<close>
  The selectors are called \<open>apos_x\<close> and \<open>apos_y\<close>, to keep \<open>x\<close> and \<open>y\<close> free for variables.
\<close>

datatype AtlasPos = AtlasPos (apos_x: u8) (apos_y: u8)

text \<open>
  A glyph bitmap gives the coverage at each pixel offset inside a glyph cell. The atlas
  buffer \<open>atlasBuf\<close>, a vector of bytes in the header, is viewed through its grid of
  glyph cells: one bitmap for each grid position (the order of the pixels inside the
  vector is fixed by code that is not at hand). The map \<open>atlasMap\<close> is
  \<^verbatim>\<open>std::map <uint16_t, AtlasPos>\<close>, and \<open>atlas_seq\<close> is declared with the initial
  value 1.
\<close>

type_synonym glyph = "nat \<times> nat \<Rightarrow> u8"

record Font =
  filename :: string
  px :: u16
  py :: u16
  nx :: u16
  ny :: u16
  atlasBuf :: "AtlasPos \<Rightarrow> glyph"
  atlasMap :: "u16 \<rightharpoonup> AtlasPos"
  atlas_seq :: u16

definition getPx :: "Font \<Rightarrow> u16" where "getPx f = px f"
definition getPy :: "Font \<Rightarrow> u16" where "getPy f = py f"
definition getNx :: "Font \<Rightarrow> u16" where "getNx f = nx f"
definition getNy :: "Font \<Rightarrow> u16" where "getNy f = ny f"
definition getAtlas :: "Font \<Rightarrow> AtlasPos \<Rightarrow> glyph" where "getAtlas f = atlasBuf f"
definition getAtlasMap :: "Font \<Rightarrow> u16 \<rightharpoonup> AtlasPos" where "getAtlasMap f = atlasMap f"

section \<open>The producer (main.cc)\<close>

subsection \<open>Frame and the cell buffers\<close>

text \<open>
  \<open>Frame\<close> is declared in the renderer header, which is not among the sources at hand.
  Its members are those \<open>main.cc\<close> uses; the four geometry members are 16 bits wide, as
  the \<open>uint16_t\<close> locals \<open>main.cc\<close> reads them into and as the members of the same names
  in \<open>CharVdev\<close>. \<open>cells\<close> is a \<^verbatim>\<open>std::shared_ptr <Cell>\<close>: the address of a
  buffer in the store, or \<open>None\<close> for the null pointer.

  The store holds every buffer ever allocated, by address; an entry is the buffer's use
  count and its cells, or \<open>None\<close> once the last owner has released it.
\<close>

record Frame =
  pxWidth :: u16
  pxHeight :: u16
  nCols :: u16
  nRows :: u16
  cells :: "nat option"

type_synonym cell_store = "(nat \<times> Cell list) option list"

record demo_state =
  draw_count :: u32
  frame :: Frame
  store :: cell_store
  rand_calls :: nat

text \<open>
  What the program takes from outside: the values \<open>rand ()\<close> returns, call after call;
  the content of newly allocated memory (\<^verbatim>\<open>new Cell [n]\<close> initialises nothing);
  and the attribute bit positions.
\<close>

record demo_env =
  rand_value :: "nat \<Rightarrow> nat"
  fresh_cell :: "nat \<Rightarrow> Cell"
  attr_bits :: AttrBits

datatype fault = DivisionByZero | SignedOverflow | NullPointer | OutOfBounds

text \<open>
  The default character geometry: the initial values of the globals \<open>geomCols\<close> and
  \<open>geomRows\<close>, which they keep unless \<open>-geometry\<close> is given.
\<close>

definition geomCols :: u16 where "geomCols = 80"
definition geomRows :: u16 where "geomRows = 25"

text \<open>Dropping one owner of a buffer; the last owner deletes it.\<close>

definition release :: "nat option \<Rightarrow> cell_store \<Rightarrow> cell_store" where
  "release p s =
     (case p of
        None \<Rightarrow> s
      | Some a \<Rightarrow>
          (if a < length s then
             (case s ! a of
                None \<Rightarrow> s
              | Some (n, cs) \<Rightarrow> s[a := (if n \<le> 1 then None else Some (n - 1, cs))])
           else s))"

text \<open>A shared pointer is null or holds the address of a buffer of the store.\<close>

definition points_into :: "nat option \<Rightarrow> cell_store \<Rightarrow> bool" where
  "points_into p s = (case p of None \<Rightarrow> True | Some a \<Rightarrow> a < length s)"

subsection \<open>demo_draw\<close>

text \<open>
  The three assignments of the loop body:
  \<^verbatim>\<open>cells [k].bold = (draw_count >> 3) & 1;
  cells [k].underline = (draw_count >> 4) & 1;
  cells [k].inverse = ((draw_count >> 5) & 3) == 3;\<close>
\<close>

definition draw_attrs :: "AttrBits \<Rightarrow> u32 \<Rightarrow> Cell \<Rightarrow> Cell" where
  "draw_attrs L dc c =
     set_inverse L (of_bool ((drop_bit 5 dc) AND 3 = 3))
       (set_underline L ((drop_bit 4 dc) AND 1)
         (set_bold L ((drop_bit 3 dc) AND 1) c))"

text \<open>
  \<open>allCodes\<close> is what \<open>priFont->getSupportedCodes ()\<close> returns, in iteration order.
  The first \<open>nGlyphs\<close> cells are updated; a null buffer or one shorter than that is a
  fault.
\<close>

definition demo_draw :: "demo_env \<Rightarrow> u16 list \<Rightarrow> demo_state \<Rightarrow> fault + demo_state" where
  "demo_draw E allCodes st =
     (let fr = frame st;
          area = unat (nRows fr) * unat (nCols fr);
          nGlyphs = (if length allCodes > area then area else length allCodes)
      in if 2 ^ 31 \<le> area then Inl SignedOverflow
         else if nGlyphs = 0 then Inr (st\<lparr>draw_count := draw_count st + 1\<rparr>)
         else
           (case cells fr of
              None \<Rightarrow> Inl NullPointer
            | Some a \<Rightarrow>
                (if length (store st) \<le> a then Inl NullPointer
                 else
                   (case store st ! a of
                      None \<Rightarrow> Inl NullPointer
                    | Some (n, cs) \<Rightarrow>
                        (if length cs < nGlyphs then Inl OutOfBounds
                         else Inr (st\<lparr>store := (store st)[a := Some (n,
                                        map (draw_attrs (attr_bits E) (draw_count st)) (take nGlyphs cs)
                                          @ drop nGlyphs cs)],
                                      draw_count := draw_count st + 1\<rparr>))))))"

subsection \<open>demo_resize\<close>

text \<open>The second loop of \<open>demo_resize\<close> gives every remaining cell this content.\<close>

definition blank_fill :: "AttrBits \<Rightarrow> Cell \<Rightarrow> Cell" where
  "blank_fill L c =
     (set_underline L 0 (set_inverse L 0 (set_bold L 0 (c\<lparr>uc_pt := 32\<rparr>))))
       \<lparr>fg := Color_init 0 0 0, bg := Color_init 72 48 96\<rparr>"

text \<open>
  The first loop walks the supported codes and the cells together, and stops at the end
  of either. The loop state is the previous code, the current background colour and
  the number of \<open>rand ()\<close> calls made. When the codes are exhausted the second loop
  fills what is left. \<open>next_bg\<close> is the conditional at the head of the loop body: a new
  random background whenever the code does not follow the previous one
  (\<open>prev_uc + 1\<close> is computed in \<open>int\<close>).
\<close>

definition next_bg :: "demo_env \<Rightarrow> u16 \<Rightarrow> u16 \<Rightarrow> Color \<Rightarrow> nat \<Rightarrow> Color \<times> nat" where
  "next_bg E prev_uc code bgc r =
     (if unat prev_uc + 1 \<noteq> unat code
      then (\<lparr>red = of_nat (rand_value E r mod 128),
             blue = of_nat (rand_value E (r + 1) mod 128),
             green = of_nat (rand_value E (r + 2) mod 128)\<rparr>, r + 3)
      else (bgc, r))"

fun demo_fill ::
  "demo_env \<Rightarrow> Color \<Rightarrow> u16 list \<Rightarrow> Cell list \<Rightarrow> u16 \<Rightarrow> Color \<Rightarrow> nat \<Rightarrow> Cell list \<times> nat" where
  "demo_fill E fgc [] cs prev_uc bgc r = (map (blank_fill (attr_bits E)) cs, r)"
| "demo_fill E fgc (code # codes) [] prev_uc bgc r = ([], r)"
| "demo_fill E fgc (code # codes) (c # cs) prev_uc bgc r =
     (let b = next_bg E prev_uc code bgc r;
          c' = (set_bold (attr_bits E) 1 (c\<lparr>uc_pt := code\<rparr>))\<lparr>fg := fgc, bg := fst b\<rparr>;
          rest = demo_fill E fgc codes cs code (fst b) (snd b)
      in (c' # fst rest, snd rest))"

text \<open>
  \<open>demo_resize\<close> fills the \<open>nRows * nCols\<close> cells the frame points to. With no cell to
  fill neither loop runs; otherwise a null buffer or one shorter than that is a fault.
\<close>

definition demo_resize :: "demo_env \<Rightarrow> u16 list \<Rightarrow> demo_state \<Rightarrow> fault + demo_state" where
  "demo_resize E allCodes st =
     (let fr = frame st;
          area = unat (nRows fr) * unat (nCols fr)
      in if 2 ^ 31 \<le> area then Inl SignedOverflow
         else if area = 0 then Inr st
         else
           (case cells fr of
              None \<Rightarrow> Inl NullPointer
            | Some a \<Rightarrow>
                (if length (store st) \<le> a then Inl NullPointer
                 else
                   (case store st ! a of
                      None \<Rightarrow> Inl NullPointer
                    | Some (n, cs) \<Rightarrow>
                        (if length cs < area then Inl OutOfBounds
                         else
                           (let (cs', r') =
                                  demo_fill E (Color_init 255 255 255) allCodes (take area cs)
                                    0 (Color_init 0 0 0) (rand_calls st)
                            in Inr (st\<lparr>store := (store st)[a := Some (n, cs' @ drop area cs)],
                                       rand_calls := r'\<rparr>)))))))"

subsection \<open>resize\<close>

text \<open>
  \<^verbatim>\<open>frame.pxWidth = width;  frame.pxHeight = height;
  frame.nCols = frame.pxWidth / priFont->getPx ();
  frame.nRows = frame.pxHeight / priFont->getPy ();
  frame.cells = std::shared_ptr <CharVdev::Cell> (new CharVdev::Cell [frame.nRows * frame.nCols]);\<close>
  \<open>width\<close> and \<open>height\<close> are \<open>int\<close>; storing them keeps their low 16 bits. The operands
  of both divisions and of the product are promoted to \<open>int\<close>: a zero divisor and a
  product beyond \<open>INT_MAX\<close> are faults. The allocation itself is taken to succeed: the
  new buffer gets the next unused address, and the frame then gives up the buffer it
  held. \<open>resize_alloc\<close> is \<open>resize\<close> up to the call of \<open>demo_resize\<close>.
\<close>

definition resize_alloc :: "demo_env \<Rightarrow> Font \<Rightarrow> u32 \<Rightarrow> u32 \<Rightarrow> demo_state \<Rightarrow> fault + demo_state" where
  "resize_alloc E priFont width height st =
     (let w = (ucast width :: u16);
          h = (ucast height :: u16)
      in if getPx priFont = 0 then Inl DivisionByZero
         else if getPy priFont = 0 then Inl DivisionByZero
         else
           (let cols = w div getPx priFont;
                rows = h div getPy priFont;
                n = unat rows * unat cols
            in if 2 ^ 31 \<le> n then Inl SignedOverflow
               else
                 (let a = length (store st);
                      s1 = store st @ [Some (1, map (fresh_cell E) [0..<n])];
                      s2 = release (cells (frame st)) s1
                  in Inr (st\<lparr>frame := \<lparr>pxWidth = w, pxHeight = h, nCols = cols, nRows = rows,
                                        cells = Some a\<rparr>,
                              store := s2\<rparr>))))"

definition resize ::
  "demo_env \<Rightarrow> Font \<Rightarrow> u16 list \<Rightarrow> u32 \<Rightarrow> u32 \<Rightarrow> demo_state \<Rightarrow> fault + demo_state" where
  "resize E priFont allCodes width height st =
     (case resize_alloc E priFont width height st of
        Inl e \<Rightarrow> Inl e
      | Inr st1 \<Rightarrow> demo_resize E allCodes st1)"

subsection \<open>The window created by main\<close>

text \<open>
  \<^verbatim>\<open>win_width = geomCols * priFont->getPx ();
  win_height = geomRows * priFont->getPy ();\<close>
  Both operands are promoted to \<open>int\<close>; a product beyond \<open>INT_MAX\<close> has no value.
\<close>

definition win_width :: "u16 \<Rightarrow> Font \<Rightarrow> int option" where
  "win_width cols priFont =
     (let p = uint cols * uint (getPx priFont) in if p < 2 ^ 31 then Some p else None)"

definition win_height :: "u16 \<Rightarrow> Font \<Rightarrow> int option" where
  "win_height rows priFont =
     (let p = uint rows * uint (getPy priFont) in if p < 2 ^ 31 then Some p else None)"

text \<open>
  What the X server and EGL answer to \<open>make_x_window\<close>, in the order it asks: each
  failed call ends the program with \<open>exit (1)\<close>, each failed \<open>assert\<close> aborts it.
\<close>

record x_env =
  choose_config_ok :: bool
  config_set :: bool
  num_configs :: int
  native_visual_ok :: bool
  visual_found :: bool
  context_created :: bool
  context_client_version :: int
  surface_created :: bool
  surface_width :: int
  surface_height :: int
  surface_type_ok :: bool
  surface_window_bit :: bool

datatype main_failure = Exit1 | AssertionFailed | IntOverflow

record x_window =
  window_width :: int
  window_height :: int
  egl_surface_width :: int
  egl_surface_height :: int

definition make_x_window :: "x_env \<Rightarrow> int \<Rightarrow> int \<Rightarrow> main_failure + x_window" where
  "make_x_window X width height =
     (if \<not> choose_config_ok X then Inl Exit1
      else if \<not> config_set X then Inl AssertionFailed
      else if \<not> num_configs X > 0 then Inl AssertionFailed
      else if \<not> native_visual_ok X then Inl Exit1
      else if \<not> visual_found X then Inl Exit1
      else if \<not> context_created X then Inl Exit1
      else if context_client_version X \<noteq> 2 then Inl AssertionFailed
      else if \<not> surface_created X then Inl Exit1
      else if surface_width X \<noteq> width then Inl AssertionFailed
      else if surface_height X \<noteq> height then Inl AssertionFailed
      else if \<not> surface_type_ok X then Inl AssertionFailed
      else if \<not> surface_window_bit X then Inl AssertionFailed
      else Inr \<lparr>window_width = width, window_height = height,
                egl_surface_width = surface_width X, egl_surface_height = surface_height X\<rparr>)"

definition main_make_window :: "x_env \<Rightarrow> u16 \<Rightarrow> u16 \<Rightarrow> Font \<Rightarrow> main_failure + x_window" where
  "main_make_window X cols rows priFont =
     (case win_width cols priFont of
        None \<Rightarrow> Inl IntOverflow
      | Some w \<Rightarrow>
          (case win_height rows priFont of
             None \<Rightarrow> Inl IntOverflow
           | Some h \<Rightarrow> make_x_window X w h))"

section \<open>Building the atlas\<close>

text \<open>
  Modelled from the spec: the font face handed over by the font-rasterisation
  collaborator. The implementation of the \<open>Font\<close> constructors, of \<open>load\<close> and of both
  \<open>loadFace\<close> is not among the sources at hand (only their declarations are), so a face
  is taken as what the spec says the builder reads from it: the glyph cell size and
  atlas grid the face yields, the code points it covers, in the order in which they are
  encountered, and the rasterised bitmap of each.
\<close>

record face =
  face_px :: u16
  face_py :: u16
  face_nx :: u16
  face_ny :: u16
  face_codes :: "u16 list"
  face_glyph :: "u16 \<Rightarrow> glyph"

datatype font_error = FontUnreadable | GeometryMismatch

text \<open>
  Modelled from the spec: position (0,0) is reserved as a permanent blank glyph.
\<close>

definition blankPos :: AtlasPos where
  "blankPos = AtlasPos 0 0"

text \<open>
  Modelled from the spec: the blank glyph has no coverage anywhere.
\<close>

definition blank_glyph :: glyph where
  "blank_glyph = (\<lambda>off. 0)"

text \<open>
  Modelled from the spec: the grid slot of a sequence number, in (x,y) order: the
  column runs first, over the \<open>nx\<close> glyphs of a row. The coordinates are bytes.
\<close>

definition pos_of_seq :: "u16 \<Rightarrow> u16 \<Rightarrow> AtlasPos" where
  "pos_of_seq n s = AtlasPos (ucast (s mod n)) (ucast (s div n))"

text \<open>
  Modelled from the spec: \<open>loadFace (face, c, apos)\<close>, which rasterises the glyph of code
  point \<open>c\<close> into the atlas cell \<open>apos\<close>.
\<close>

definition loadFace_at :: "face \<Rightarrow> u16 \<Rightarrow> AtlasPos \<Rightarrow> Font \<Rightarrow> Font" where
  "loadFace_at fc c apos f = f\<lparr>atlasBuf := (atlasBuf f)(apos := face_glyph fc c)\<rparr>"

text \<open>
  Modelled from the spec: \<open>loadFace (face, c)\<close>, for a newly discovered glyph: it gets
  the next free grid slot, the one of the current \<open>atlas_seq\<close>; the map records it and
  the sequence number moves on.
\<close>

definition loadFace :: "face \<Rightarrow> u16 \<Rightarrow> Font \<Rightarrow> Font" where
  "loadFace fc c f =
     (let apos = pos_of_seq (nx f) (atlas_seq f)
      in (loadFace_at fc c apos f)
           \<lparr>atlasMap := (atlasMap f)(c \<mapsto> apos), atlas_seq := atlas_seq f + 1\<rparr>)"

text \<open>
  Modelled from the spec: one step of the loop of a primary \<open>load\<close>. A code point that
  already has a cell (an earlier encounter) is rasterised into that cell; any other is
  newly discovered.
\<close>

definition load_code :: "face \<Rightarrow> Font \<Rightarrow> u16 \<Rightarrow> Font" where
  "load_code fc f c =
     (case atlasMap f c of
        Some apos \<Rightarrow> loadFace_at fc c apos f
      | None \<Rightarrow> loadFace fc c f)"

text \<open>
  Modelled from the spec: the loop of \<open>load\<close> over the code points of the face, in the
  order in which they are encountered.
\<close>

definition load_codes :: "face \<Rightarrow> u16 list \<Rightarrow> Font \<Rightarrow> Font" where
  "load_codes fc cs f = foldl (load_code fc) f cs"

text \<open>
  Modelled from the spec: one step of the loop of an overlay \<open>load\<close>. The alternate font
  conforms to the position mapping of the primary font (the header's comment on the
  constructor), so the map and \<open>atlas_seq\<close> stay as copied: the glyph of a code point
  that has a cell is rasterised over that cell, and a code point without a cell has no
  position to go to and keeps resolving to the blank.
\<close>

definition overlay_code :: "face \<Rightarrow> Font \<Rightarrow> u16 \<Rightarrow> Font" where
  "overlay_code fc f c =
     (case atlasMap f c of
        Some apos \<Rightarrow> loadFace_at fc c apos f
      | None \<Rightarrow> f)"

text \<open>
  Modelled from the spec: the loop of an overlay \<open>load\<close> over the code points of the
  alternate face.
\<close>

definition overlay_codes :: "face \<Rightarrow> u16 list \<Rightarrow> Font \<Rightarrow> Font" where
  "overlay_codes fc cs f = foldl (overlay_code fc) f cs"

text \<open>
  Modelled from the spec: the geometry (px, py, nx, ny) a face yields, and the geometry
  of a font, which an alternate face has to match.
\<close>

definition face_geometry :: "face \<Rightarrow> u16 \<times> u16 \<times> u16 \<times> u16" where
  "face_geometry fc = (face_px fc, face_py fc, face_nx fc, face_ny fc)"

definition font_geometry :: "Font \<Rightarrow> u16 \<times> u16 \<times> u16 \<times> u16" where
  "font_geometry f = (px f, py f, nx f, ny f)"

text \<open>
  Modelled from the spec: \<open>load (overlay)\<close>. A primary load takes the geometry the face
  yields and rasterises every code point of the face. An overlay load is an error when
  the face yields another geometry than the font already has; otherwise it rasterises
  the face's glyphs over the cells the font holds.
\<close>

definition load :: "bool \<Rightarrow> face \<Rightarrow> Font \<Rightarrow> font_error + Font" where
  "load overlay fc f =
     (if overlay then
        (if face_geometry fc \<noteq> font_geometry f then Inl GeometryMismatch
         else Inr (overlay_codes fc (face_codes fc) f))
      else
        Inr (load_codes fc (face_codes fc)
               (f\<lparr>px := face_px fc, py := face_py fc, nx := face_nx fc, ny := face_ny fc\<rparr>)))"

text \<open>
  Modelled from the spec: the members of a \<open>Font\<close> before anything is loaded. The atlas
  is blank, the map is empty, and \<open>atlas_seq\<close> has the initial value 1 of its
  declaration, so that cell 0 stays the blank.
\<close>

definition empty_Font :: "string \<Rightarrow> Font" where
  "empty_Font fname =
     \<lparr>filename = fname, px = 0, py = 0, nx = 0, ny = 0,
      atlasBuf = (\<lambda>p. blank_glyph), atlasMap = Map.empty, atlas_seq = 1\<rparr>"

text \<open>
  Modelled from the spec: \<open>Font (filename)\<close>. \<open>files\<close> is the font-rasterisation
  collaborator: the face a font file decodes to, or \<open>None\<close> when the file cannot be
  opened or decoded.
\<close>

definition Font_primary :: "(string \<Rightarrow> face option) \<Rightarrow> string \<Rightarrow> font_error + Font" where
  "Font_primary files fname =
     (case files fname of
        None \<Rightarrow> Inl FontUnreadable
      | Some fc \<Rightarrow> load False fc (empty_Font fname))"

text \<open>
  Modelled from the spec: \<open>Font (filename, priFont)\<close>. The alternate font starts from a
  copy of the primary font's atlas and map and overlays the alternate face.
\<close>

definition Font_alternate ::
  "(string \<Rightarrow> face option) \<Rightarrow> string \<Rightarrow> Font \<Rightarrow> font_error + Font" where
  "Font_alternate files fname priFont =
     (case files fname of
        None \<Rightarrow> Inl FontUnreadable
      | Some fc \<Rightarrow> load True fc (priFont\<lparr>filename := fname\<rparr>))"

text \<open>
  Modelled from the spec: a lookup in the atlas map; one that misses resolves to (0,0).
\<close>

definition atlasLookup :: "Font \<Rightarrow> u16 \<Rightarrow> AtlasPos" where
  "atlasLookup f c = (case atlasMap f c of None \<Rightarrow> blankPos | Some p \<Rightarrow> p)"

text \<open>
  Modelled from the spec: the glyph sampling step of the compute pass (the shader is
  not among the sources at hand): the coverage of the glyph of code point \<open>c\<close> at the
  sub-cell offset \<open>off\<close>, read from the atlas cell the lookup resolves to.
\<close>

definition glyphCoverage :: "Font \<Rightarrow> u16 \<Rightarrow> nat \<times> nat \<Rightarrow> u8" where
  "glyphCoverage f c off = atlasBuf f (atlasLookup f c) off"

text \<open>
  Modelled from the spec: \<open>getSupportedCodes\<close>, which \<open>main.cc\<close> calls and the font header
  at hand does not declare: the code points that have a mapped, non-blank glyph.
\<close>

definition getSupportedCodes :: "Font \<Rightarrow> u16 set" where
  "getSupportedCodes f = {c \<in> dom (atlasMap f). atlasMap f c \<noteq> Some blankPos}"

text \<open>
  Modelled from the spec: the sequencing rule. Cells are assigned in increasing order
  from sequence 1, in the order of first encounter: a code point gets one more than the
  number of distinct code points encountered before its first encounter.
\<close>

definition seq_of :: "u16 list \<Rightarrow> u16 \<Rightarrow> nat" where
  "seq_of cs c = Suc (card (set (takeWhile (\<lambda>d. d \<noteq> c) cs)))"

text \<open>
  Modelled from the spec: an atlas grid large enough to hold \<open>n\<close> distinct glyphs. It
  has room for the blank and \<open>n\<close> glyphs, and at most 256 columns and 256 rows, since
  the coordinates of a position are bytes.
\<close>

definition grid_fits :: "u16 \<Rightarrow> u16 \<Rightarrow> nat \<Rightarrow> bool" where
  "grid_fits gx gy n = (unat gx \<le> 256 \<and> unat gy \<le> 256 \<and> n < unat gx * unat gy)"

text \<open>
  The invariant of the builder after \<open>n\<close> glyphs have been assigned a cell: the next
  sequence number is \<open>n + 1\<close>, every mapped position is the slot of a sequence number
  from 1 to \<open>n\<close>, no two code points share a position, and the cell at (0,0) is blank.
\<close>

definition atlas_inv :: "nat \<Rightarrow> Font \<Rightarrow> bool" where
  "atlas_inv n f =
     (atlas_seq f = of_nat (Suc n)
      \<and> (\<forall>c p. atlasMap f c = Some p \<longrightarrow> (\<exists>s. 0 < s \<and> s \<le> n \<and> p = pos_of_seq (nx f) (of_nat s)))
      \<and> inj_on (atlasMap f) (dom (atlasMap f))
      \<and> atlasBuf f blankPos = blank_glyph)"

section \<open>Concrete inputs\<close>

text \<open>
  A 9x18 font, an environment, an X server that grants everything, and a program state
  whose frame shares a one-cell buffer with one other owner.
\<close>

definition font_9x18 :: Font where
  "font_9x18 =
     \<lparr>filename = ''9x18'', px = 9, py = 18, nx = 16, ny = 16,
      atlasBuf = (\<lambda>p off. 0), atlasMap = Map.empty, atlas_seq = 1\<rparr>"

definition plain_bits :: AttrBits where
  "plain_bits = \<lparr>bold_bit = 0, underline_bit = 1, inverse_bit = 2\<rparr>"

definition stale_cell :: Cell where
  "stale_cell =
     \<lparr>uc_pt = 7, attrs = 0xFFFF, fg = Color_init 1 2 3, fill2 = 0,
      bg = Color_init 4 5 6, fill3 = 0\<rparr>"

definition plain_env :: demo_env where
  "plain_env =
     \<lparr>rand_value = (\<lambda>k. 1000 + k), fresh_cell = (\<lambda>k. stale_cell), attr_bits = plain_bits\<rparr>"

definition granting_x :: x_env where
  "granting_x =
     \<lparr>choose_config_ok = True, config_set = True, num_configs = 1, native_visual_ok = True,
      visual_found = True, context_created = True, context_client_version = 2,
      surface_created = True, surface_width = 720, surface_height = 450,
      surface_type_ok = True, surface_window_bit = True\<rparr>"

definition shared_state :: demo_state where
  "shared_state =
     \<lparr>draw_count = 0,
      frame = \<lparr>pxWidth = 9, pxHeight = 18, nCols = 1, nRows = 1, cells = Some 0\<rparr>,
      store = [Some (2, [stale_cell])],
      rand_calls = 0\<rparr>"

text \<open>
  Two faces of the same geometry, a grid of two by two cells: a regular face that covers
  B and A, encountered in that order, and a bold face that covers A, C and D. Each
  face fits the grid; the four code points of both together, with the blank, do not.
  The coverage of a glyph is its code point everywhere, plus 128 in the bold face.
\<close>

definition regular_face :: face where
  "regular_face =
     \<lparr>face_px = 9, face_py = 18, face_nx = 2, face_ny = 2,
      face_codes = [66, 65], face_glyph = (\<lambda>c off. ucast c)\<rparr>"

definition bold_face :: face where
  "bold_face =
     \<lparr>face_px = 9, face_py = 18, face_nx = 2, face_ny = 2,
      face_codes = [65, 67, 68], face_glyph = (\<lambda>c off. ucast c + 128)\<rparr>"

definition wide_face :: face where
  "wide_face =
     \<lparr>face_px = 10, face_py = 18, face_nx = 2, face_ny = 2,
      face_codes = [65, 67], face_glyph = (\<lambda>c off. ucast c + 128)\<rparr>"

definition font_files :: "string \<Rightarrow> face option" where
  "font_files fname =
     (if fname = ''9x18'' then Some regular_face
      else if fname = ''9x18B'' then Some bold_face
      else if fname = ''10x18B'' then Some wide_face
      else None)"

section \<open>Properties of the cell records\<close>

lemma sizeof_Color: "sizeof_struct Color_decl = 3"
  by code_simp

lemma alignof_Color: "struct_align Color_decl = 1"
  by code_simp

lemma sizeof_Cell: "sizeof_struct Cell_decl = 12"
  by code_simp

lemma Color_bytes_eq: "Color_bytes pad c = [red c, blue c, green c]"
  unfolding Color_bytes_def struct_bytes_def sizeof_Color
  by (simp add: Color_decl_def align_up_def)

lemma Cell_bytes_eq:
  "Cell_bytes pad c =
     u16_bytes (uc_pt c) @ u16_bytes (attrs c) @
     [red (fg c), blue (fg c), green (fg c), fill2 c, red (bg c), blue (bg c), green (bg c), fill3 c]"
  unfolding Cell_bytes_def struct_bytes_def sizeof_Cell Color_bytes_eq
  unfolding Cell_decl_def sizeof_Color alignof_Color
  by (simp add: align_up_def u16_bytes_def)

lemma bit_store_bit: "k < 16 \<Longrightarrow> bit (store_bit k v w) j = (if j = k then bit v 0 else bit w j)"
  by (auto simp add: store_bit_def bit_set_bit_iff bit_unset_bit_iff dest: bit_imp_le_length)

lemma low_bit_and_one: "bit (drop_bit k (dc :: u32) AND 1) 0 = bit dc k"
  by (simp add: bit_and_iff bit_drop_bit_eq)

lemma two_bits_set: "(drop_bit 5 (dc :: u32) AND 3 = 3) = (bit dc 5 \<and> bit dc 6)"
proof -
  have m: "(3 :: u32) = mask 2" by (simp add: mask_eq_exp_minus_1)
  show ?thesis
    unfolding m
  proof
    assume "drop_bit 5 dc AND mask 2 = mask 2"
    then have "bit (drop_bit 5 dc AND mask 2) n = bit (mask 2 :: u32) n" for n
      by simp
    from this [of 0] this [of 1] show "bit dc 5 \<and> bit dc 6"
      by (simp add: bit_and_iff bit_drop_bit_eq bit_mask_iff)
  next
    assume "bit dc 5 \<and> bit dc 6"
    then show "drop_bit 5 dc AND mask 2 = mask 2"
      by (intro bit_eqI) (auto simp add: bit_and_iff bit_drop_bit_eq bit_mask_iff less_2_cases_iff)
  qed
qed


text \<open>
  Claim C5. Every \<open>Cell\<close> record has the same size of 12 bytes: a 16-bit code point at
  offset 0, the 16-bit packed attribute field at offset 2, the foreground colour at
  offset 4 and the background colour at offset 8. Bold, underline and inverse are
  separate bits of the attribute field: storing to one of them sets that bit to the
  value stored and leaves the other two as they were, and the three assignments of
  \<open>demo_draw\<close> set them to three independent functions of the draw counter.
\<close>

theorem Cell_fixed_layout:
  assumes "AttrBits_ok L"
  shows "sizeof_struct Cell_decl = 12
    \<and> length (Cell_bytes pad c) = 12
    \<and> member_offsets 0 Cell_decl =
        [(''uc_pt'', 0), (''attrs'', 2), (''fg'', 4), (''fill2_'', 7), (''bg'', 8), (''fill3_'', 11)]
    \<and> get_bold L (set_bold L v c) = bit v 0
    \<and> get_underline L (set_bold L v c) = get_underline L c
    \<and> get_inverse L (set_bold L v c) = get_inverse L c
    \<and> get_underline L (set_underline L v c) = bit v 0
    \<and> get_bold L (set_underline L v c) = get_bold L c
    \<and> get_inverse L (set_underline L v c) = get_inverse L c
    \<and> get_inverse L (set_inverse L v c) = bit v 0
    \<and> get_bold L (set_inverse L v c) = get_bold L c
    \<and> get_underline L (set_inverse L v c) = get_underline L c
    \<and> get_bold L (draw_attrs L dc c) = bit dc 3
    \<and> get_underline L (draw_attrs L dc c) = bit dc 4
    \<and> get_inverse L (draw_attrs L dc c) = (bit dc 5 \<and> bit dc 6)
    \<and> uc_pt (draw_attrs L dc c) = uc_pt c
    \<and> fg (draw_attrs L dc c) = fg c \<and> bg (draw_attrs L dc c) = bg c"
proof -
  have off: "member_offsets 0 Cell_decl =
        [(''uc_pt'', 0), (''attrs'', 2), (''fg'', 4), (''fill2_'', 7), (''bg'', 8), (''fill3_'', 11)]"
    by code_simp
  have len: "length (Cell_bytes pad c) = 12"
    by (simp add: Cell_bytes_eq u16_bytes_def)
  from assms have k: "bold_bit L < 16" "underline_bit L < 16" "inverse_bit L < 16"
    and d: "bold_bit L \<noteq> underline_bit L" "bold_bit L \<noteq> inverse_bit L"
      "underline_bit L \<noteq> inverse_bit L"
    by (simp_all add: AttrBits_ok_def)
  have sets: "get_bold L (set_bold L v c) = bit v 0"
      "get_underline L (set_bold L v c) = get_underline L c"
      "get_inverse L (set_bold L v c) = get_inverse L c"
      "get_underline L (set_underline L v c) = bit v 0"
      "get_bold L (set_underline L v c) = get_bold L c"
      "get_inverse L (set_underline L v c) = get_inverse L c"
      "get_inverse L (set_inverse L v c) = bit v 0"
      "get_bold L (set_inverse L v c) = get_bold L c"
      "get_underline L (set_inverse L v c) = get_underline L c"
    using k d
    by (auto simp add: get_bold_def get_underline_def get_inverse_def set_bold_def
        set_underline_def set_inverse_def bit_store_bit)
  have draw: "get_bold L (draw_attrs L dc c) = bit dc 3"
      "get_underline L (draw_attrs L dc c) = bit dc 4"
      "get_inverse L (draw_attrs L dc c) = (bit dc 5 \<and> bit dc 6)"
    using k d
    by (auto simp add: get_bold_def get_underline_def get_inverse_def set_bold_def
        set_underline_def set_inverse_def draw_attrs_def bit_store_bit low_bit_and_one two_bits_set)
  have rest: "uc_pt (draw_attrs L dc c) = uc_pt c"
      "fg (draw_attrs L dc c) = fg c" "bg (draw_attrs L dc c) = bg c"
    by (simp_all add: draw_attrs_def set_bold_def set_underline_def set_inverse_def)
  show ?thesis using sizeof_Cell off len sets draw rest by simp
qed


theorem Cell_fixed_layout_witness:
  "AttrBits_ok plain_bits
   \<and> length (Cell_bytes 0 stale_cell) = 12
   \<and> get_bold plain_bits (set_bold plain_bits 0 stale_cell) = False
   \<and> get_underline plain_bits (set_bold plain_bits 0 stale_cell) = get_underline plain_bits stale_cell
   \<and> get_inverse plain_bits (set_bold plain_bits 0 stale_cell) = get_inverse plain_bits stale_cell"
proof -
  have h: "AttrBits_ok plain_bits"
    by (simp add: AttrBits_ok_def plain_bits_def)
  from Cell_fixed_layout [OF h, of 0 stale_cell 0] h show ?thesis
    by simp
qed

text \<open>
  Claim C10. The three channels of a \<open>Color\<close> lie in declaration order red, blue, green,
  at offsets 0, 1 and 2, so the bytes of a colour inside a \<open>Cell\<close> are R, B, G: bytes
  4 to 6 for the foreground and 8 to 10 for the background, for every cell. The
  cells that \<open>demo_resize\<close> fills with \<open>{72, 48, 96}\<close> carry 48 as blue and 96 as green.
\<close>

theorem Color_channel_order:
  "member_offsets 0 Color_decl = [(''red'', 0), (''blue'', 1), (''green'', 2)]
   \<and> Color_bytes pad col = [red col, blue col, green col]
   \<and> take 3 (drop 4 (Cell_bytes pad c)) = [red (fg c), blue (fg c), green (fg c)]
   \<and> take 3 (drop 8 (Cell_bytes pad c)) = [red (bg c), blue (bg c), green (bg c)]
   \<and> take 3 (drop 8 (Cell_bytes pad (blank_fill L c))) = [72, 48, 96]
   \<and> blue (bg (blank_fill L c)) = 48 \<and> green (bg (blank_fill L c)) = 96"
proof -
  have off: "member_offsets 0 Color_decl = [(''red'', 0), (''blue'', 1), (''green'', 2)]"
    by code_simp
  have b: "bg (blank_fill L c) = Color_init 72 48 96"
    by (simp add: blank_fill_def)
  show ?thesis
    using off
    by (simp add: b Color_bytes_eq Cell_bytes_eq u16_bytes_def Color_init_def)
qed

section \<open>Properties of the producer\<close>

lemma make_x_window_Inr:
  "make_x_window X w h = Inr r \<Longrightarrow>
     window_width r = w \<and> window_height r = h \<and> egl_surface_width r = w \<and> egl_surface_height r = h"
  by (auto simp add: make_x_window_def split: if_splits)


text \<open>
  Claim C7. With the default geometry of 80 columns by 25 rows and a font whose glyph
  cell is 9 by 18 pixels, \<open>main\<close> asks for a window of 720 by 450 pixels, that is
  \<open>geomCols * px\<close> by \<open>geomRows * py\<close>, and whenever \<open>make_x_window\<close> returns, the window
  and its EGL surface have exactly that size.
\<close>

theorem default_window_size:
  assumes "getPx priFont = 9" and "getPy priFont = 18"
  shows "win_width geomCols priFont = Some 720
    \<and> win_height geomRows priFont = Some 450
    \<and> win_width geomCols priFont = Some (uint geomCols * uint (getPx priFont))
    \<and> win_height geomRows priFont = Some (uint geomRows * uint (getPy priFont))
    \<and> (\<forall>r. main_make_window X geomCols geomRows priFont = Inr r \<longrightarrow>
          window_width r = 720 \<and> window_height r = 450
          \<and> egl_surface_width r = 720 \<and> egl_surface_height r = 450)"
proof -
  have w: "win_width geomCols priFont = Some 720"
    using assms by (simp add: win_width_def geomCols_def)
  have h: "win_height geomRows priFont = Some 450"
    using assms by (simp add: win_height_def geomRows_def)
  have "window_width r = 720 \<and> window_height r = 450
          \<and> egl_surface_width r = 720 \<and> egl_surface_height r = 450"
    if "main_make_window X geomCols geomRows priFont = Inr r" for r
    using that make_x_window_Inr [of X 720 450 r] by (simp add: main_make_window_def w h)
  then show ?thesis
    using w h assms by (simp add: geomCols_def geomRows_def)
qed


theorem default_window_size_witness:
  "getPx font_9x18 = 9 \<and> getPy font_9x18 = 18
   \<and> main_make_window granting_x geomCols geomRows font_9x18
      = Inr \<lparr>window_width = 720, window_height = 450,
             egl_surface_width = 720, egl_surface_height = 450\<rparr>"
  using default_window_size [of font_9x18 granting_x]
  by (simp add: getPx_def getPy_def font_9x18_def granting_x_def main_make_window_def
      make_x_window_def)

lemma demo_draw_Inr:
  assumes "demo_draw E allCodes st = Inr st'"
  shows "draw_count st' = draw_count st + 1 \<and> frame st' = frame st
    \<and> length (store st') = length (store st)"
  using assms
  by (auto simp add: demo_draw_def Let_def split: if_splits option.splits prod.splits)

lemma length_demo_fill:
  "length (fst (demo_fill E fgc codes cs prev_uc bgc r)) = length cs"
  by (induction E fgc codes cs prev_uc bgc r rule: demo_fill.induct)
    (simp_all add: Let_def)

lemma length_release: "length (release p s) = length s"
  by (simp add: release_def split: option.splits prod.splits)

lemma release_keeps_cells:
  "a < length s \<Longrightarrow> s ! a = Some (n, cs) \<Longrightarrow>
     release p s ! a = None \<or> (\<exists>n'. release p s ! a = Some (n', cs))"
  by (auto simp add: release_def nth_list_update split: option.splits prod.splits)

lemma release_other:
  "p \<noteq> Some a \<Longrightarrow> release p s ! a = s ! a"
  by (auto simp add: release_def nth_list_update split: option.splits prod.splits)

lemma resize_alloc_Inr:
  assumes "resize_alloc E priFont width height st = Inr st1"
  shows "pxWidth (frame st1) = ucast width \<and> pxHeight (frame st1) = ucast height
    \<and> nCols (frame st1) = pxWidth (frame st1) div getPx priFont
    \<and> nRows (frame st1) = pxHeight (frame st1) div getPy priFont
    \<and> getPx priFont \<noteq> 0 \<and> getPy priFont \<noteq> 0
    \<and> unat (nRows (frame st1)) * unat (nCols (frame st1)) < 2 ^ 31
    \<and> cells (frame st1) = Some (length (store st))
    \<and> length (store st1) = Suc (length (store st))
    \<and> store st1 = release (cells (frame st))
         (store st @ [Some (1, map (fresh_cell E)
            [0..<unat (nRows (frame st1)) * unat (nCols (frame st1))])])
    \<and> draw_count st1 = draw_count st \<and> rand_calls st1 = rand_calls st"
  using assms
  by (auto simp add: resize_alloc_def Let_def length_release split: if_splits)

lemma demo_resize_Inr:
  assumes run: "demo_resize E allCodes st1 = Inr st'"
    and ptr: "cells (frame st1) = Some a" "a < length (store st1)" "store st1 ! a = Some (n, cs)"
  shows "frame st' = frame st1
    \<and> (\<exists>cs'. store st' = (store st1)[a := Some (n, cs')] \<and> length cs' = length cs)"
proof -
  define area where "area = unat (nRows (frame st1)) * unat (nCols (frame st1))"
  show ?thesis
  proof (cases "area = 0")
    case True
    with run have "st' = st1"
      by (auto simp add: demo_resize_def Let_def area_def split: if_splits)
    moreover have "store st1 = (store st1)[a := Some (n, cs)]"
      using ptr(3) by (metis list_update_id)
    ultimately show ?thesis by blast
  next
    case False
    with run ptr have le: "area \<le> length cs"
      by (auto simp add: demo_resize_def Let_def area_def split: if_splits)
    define res where "res = demo_fill E (Color_init 255 255 255) allCodes (take area cs)
                                    0 (Color_init 0 0 0) (rand_calls st1)"
    have len: "length (fst res) = area"
      using le by (simp add: res_def length_demo_fill)
    from run ptr False have st': "st' = st1\<lparr>store := (store st1)[a := Some (n, fst res @ drop area cs)],
                                       rand_calls := snd res\<rparr>"
      by (auto simp add: demo_resize_def Let_def area_def res_def split: if_splits prod.splits)
    have "length (fst res @ drop area cs) = length cs"
      using len le by simp
    with st' show ?thesis by auto
  qed
qed

lemma demo_resize_total:
  assumes "cells (frame st1) = Some a" "a < length (store st1)" "store st1 ! a = Some (n, cs)"
    "length cs = unat (nRows (frame st1)) * unat (nCols (frame st1))"
    "unat (nRows (frame st1)) * unat (nCols (frame st1)) < 2 ^ 31"
  shows "\<exists>st'. demo_resize E allCodes st1 = Inr st'"
  using assms by (simp add: demo_resize_def Let_def split: prod.splits)


text \<open>
  Claim C4. For a font with a non-zero glyph cell size and a cell count within the
  range of \<open>int\<close>, \<open>resize\<close> returns, and afterwards
  the frame's column count is \<open>pxWidth div px\<close> and its row count \<open>pxHeight div py\<close>; the
  frame points to a buffer at a fresh address, which held exactly \<open>nRows * nCols\<close>
  unwritten cells when \<open>demo_resize\<close> started to fill it and holds as many afterwards;
  every buffer that existed before either still has the cells it had or has been
  released.
\<close>

theorem resize_reallocates_frame:
  assumes px: "getPx priFont \<noteq> 0" and py: "getPy priFont \<noteq> 0"
    and area: "unat ((ucast height :: u16) div getPy priFont)
                 * unat ((ucast width :: u16) div getPx priFont) < 2 ^ 31"
    and old: "points_into (cells (frame st)) (store st)"
  shows "\<exists>st1 st' cs.
      resize_alloc E priFont width height st = Inr st1
    \<and> demo_resize E allCodes st1 = Inr st'
    \<and> resize E priFont allCodes width height st = Inr st'
    \<and> pxWidth (frame st') = ucast width \<and> pxHeight (frame st') = ucast height
    \<and> nCols (frame st') = pxWidth (frame st') div getPx priFont
    \<and> nRows (frame st') = pxHeight (frame st') div getPy priFont
    \<and> unat (nCols (frame st')) = unat (pxWidth (frame st')) div unat (getPx priFont)
    \<and> unat (nRows (frame st')) = unat (pxHeight (frame st')) div unat (getPy priFont)
    \<and> cells (frame st') = Some (length (store st))
    \<and> store st1 ! length (store st) =
        Some (1, map (fresh_cell E) [0..<unat (nRows (frame st')) * unat (nCols (frame st'))])
    \<and> store st' ! length (store st) = Some (1, cs)
    \<and> length cs = unat (nRows (frame st')) * unat (nCols (frame st'))
    \<and> (\<forall>a n old_cells. a < length (store st) \<longrightarrow> store st ! a = Some (n, old_cells) \<longrightarrow>
          store st' ! a = None \<or> (\<exists>n'. store st' ! a = Some (n', old_cells)))"
proof -
  define n where "n = unat ((ucast height :: u16) div getPy priFont)
                 * unat ((ucast width :: u16) div getPx priFont)"
  define s1 where "s1 = store st @ [Some (1 :: nat, map (fresh_cell E) [0..<n])]"
  define st1 where "st1 = st\<lparr>frame := \<lparr>pxWidth = ucast width, pxHeight = ucast height,
      nCols = (ucast width :: u16) div getPx priFont,
      nRows = (ucast height :: u16) div getPy priFont, cells = Some (length (store st))\<rparr>,
      store := release (cells (frame st)) s1\<rparr>"
  have alloc: "resize_alloc E priFont width height st = Inr st1"
    using px py area by (simp add: resize_alloc_def Let_def st1_def s1_def n_def)
  have ne: "cells (frame st) \<noteq> Some (length (store st))"
    using old by (auto simp add: points_into_def)
  have new1: "store st1 ! length (store st) = Some (1, map (fresh_cell E) [0..<n])"
    using ne by (simp add: st1_def release_other s1_def)
  have fr1: "unat (nRows (frame st1)) * unat (nCols (frame st1)) = n"
    by (simp add: st1_def n_def)
  have len1: "length (store st1) = Suc (length (store st))"
    by (simp add: st1_def length_release s1_def)
  have "\<exists>st'. demo_resize E allCodes st1 = Inr st'"
  proof (rule demo_resize_total)
    show "cells (frame st1) = Some (length (store st))" by (simp add: st1_def)
    show "length (store st) < length (store st1)" using len1 by simp
    show "store st1 ! length (store st) = Some (1, map (fresh_cell E) [0..<n])" by (rule new1)
    show "length (map (fresh_cell E) [0..<n]) = unat (nRows (frame st1)) * unat (nCols (frame st1))"
      using fr1 by simp
    show "unat (nRows (frame st1)) * unat (nCols (frame st1)) < 2 ^ 31"
      using fr1 area by (simp add: n_def)
  qed
  then obtain st' where fill: "demo_resize E allCodes st1 = Inr st'" ..
  have c1: "cells (frame st1) = Some (length (store st))" by (simp add: st1_def)
  have l1: "length (store st) < length (store st1)" using len1 by simp
  from demo_resize_Inr [OF fill c1 l1 new1] obtain cs' where
    fr: "frame st' = frame st1"
    and upd: "store st' = (store st1)[length (store st) := Some (1, cs')]"
    and lencs0: "length cs' = length (map (fresh_cell E) [0..<n])"
    by blast
  have new': "store st' ! length (store st) = Some (1, cs')"
    using l1 by (simp add: upd)
  have lencs: "length cs' = n" using lencs0 by simp
  have olds: "store st' ! b = None \<or> (\<exists>n'. store st' ! b = Some (n', old_cells))"
    if "b < length (store st)" "store st ! b = Some (m, old_cells)" for b m old_cells
  proof -
    have "s1 ! b = Some (m, old_cells)" "b < length s1"
      using that by (simp_all add: s1_def nth_append)
    from release_keeps_cells [OF this(2) this(1), of "cells (frame st)"]
    have "store st1 ! b = None \<or> (\<exists>n'. store st1 ! b = Some (n', old_cells))"
      by (simp add: st1_def)
    moreover have "store st' ! b = store st1 ! b"
      using that(1) by (simp add: upd)
    ultimately show ?thesis by simp
  qed
  have res: "resize E priFont allCodes width height st = Inr st'"
    by (simp add: resize_def alloc fill)
  have geo: "pxWidth (frame st') = ucast width" "pxHeight (frame st') = ucast height"
    "nCols (frame st') = pxWidth (frame st') div getPx priFont"
    "nRows (frame st') = pxHeight (frame st') div getPy priFont"
    "cells (frame st') = Some (length (store st))"
    by (simp_all add: fr st1_def)
  have un: "unat (nCols (frame st')) = unat (pxWidth (frame st')) div unat (getPx priFont)"
    "unat (nRows (frame st')) = unat (pxHeight (frame st')) div unat (getPy priFont)"
    by (simp_all add: geo(3,4) unat_div)
  have fr': "unat (nRows (frame st')) * unat (nCols (frame st')) = n"
    using fr1 by (simp add: fr)
  have new1': "store st1 ! length (store st) =
      Some (1, map (fresh_cell E) [0..<unat (nRows (frame st')) * unat (nCols (frame st'))])"
    using new1 by (simp only: fr')
  have lencs': "length cs' = unat (nRows (frame st')) * unat (nCols (frame st'))"
    using lencs by (simp only: fr')
  have olds': "\<forall>a n old_cells. a < length (store st) \<longrightarrow> store st ! a = Some (n, old_cells) \<longrightarrow>
          store st' ! a = None \<or> (\<exists>n'. store st' ! a = Some (n', old_cells))"
    using olds by blast
  show ?thesis
    apply (rule exI [of _ st1], rule exI [of _ st'], rule exI [of _ cs'])
    apply (intro conjI)
    apply (rule alloc fill res geo un new1' new' lencs' olds')+
    done
qed



theorem resize_reallocates_frame_witness:
  "getPx font_9x18 \<noteq> 0 \<and> getPy font_9x18 \<noteq> 0
   \<and> unat ((ucast (450 :: u32) :: u16) div getPy font_9x18)
        * unat ((ucast (720 :: u32) :: u16) div getPx font_9x18) < 2 ^ 31
   \<and> points_into (cells (frame shared_state)) (store shared_state)
   \<and> (\<exists>st' cs. resize plain_env font_9x18 [65, 66] 720 450 shared_state = Inr st'
         \<and> nCols (frame st') = 80 \<and> nRows (frame st') = 25
         \<and> cells (frame st') = Some 1
         \<and> store st' ! 1 = Some (1, cs) \<and> length cs = 2000
         \<and> (store st' ! 0 = None \<or> (\<exists>n'. store st' ! 0 = Some (n', [stale_cell]))))"
proof -
  have h1: "getPx font_9x18 \<noteq> 0" and h2: "getPy font_9x18 \<noteq> 0"
    by (simp_all add: getPx_def getPy_def font_9x18_def)
  have h3: "unat ((ucast (450 :: u32) :: u16) div getPy font_9x18)
        * unat ((ucast (720 :: u32) :: u16) div getPx font_9x18) < 2 ^ 31"
    by (simp add: getPx_def getPy_def font_9x18_def)
  have h4: "points_into (cells (frame shared_state)) (store shared_state)"
    by (simp add: shared_state_def points_into_def)
  from resize_reallocates_frame [OF h1 h2 h3 h4, of plain_env "[65, 66]"]
  obtain st1 st' cs where r:
    "resize plain_env font_9x18 [65, 66] 720 450 shared_state = Inr st'"
    "pxWidth (frame st') = ucast (720 :: u32)" "pxHeight (frame st') = ucast (450 :: u32)"
    "nCols (frame st') = pxWidth (frame st') div getPx font_9x18"
    "nRows (frame st') = pxHeight (frame st') div getPy font_9x18"
    "cells (frame st') = Some (length (store shared_state))"
    "store st' ! length (store shared_state) = Some (1, cs)"
    "length cs = unat (nRows (frame st')) * unat (nCols (frame st'))"
    "\<forall>a n old_cells. a < length (store shared_state) \<longrightarrow>
        store shared_state ! a = Some (n, old_cells) \<longrightarrow>
          store st' ! a = None \<or> (\<exists>n'. store st' ! a = Some (n', old_cells))"
    by blast
  have c: "nCols (frame st') = 80" "nRows (frame st') = 25"
    by (simp_all add: r(2-5) getPx_def getPy_def font_9x18_def)
  have l: "length (store shared_state) = 1" by (simp add: shared_state_def)
  have o: "store st' ! 0 = None \<or> (\<exists>n'. store st' ! 0 = Some (n', [stale_cell]))"
    using r(9) [rule_format, of 0 2 "[stale_cell]"] by (simp add: shared_state_def)
  have "length cs = 2000" using r(8) by (simp add: c)
  with r(1,6,7) c o l h1 h2 h3 h4 show ?thesis by auto
qed

section \<open>Properties of the atlas builder\<close>

lemma pos_of_seq_coords:
  assumes n: "n \<noteq> 0" "unat n \<le> 256" and s: "s < unat n * 256"
  shows "unat (apos_x (pos_of_seq n (of_nat s))) = s mod unat n"
    and "unat (apos_y (pos_of_seq n (of_nat s))) = s div unat n"
proof -
  have n0: "0 < unat n" using n(1) by (simp add: unat_gt_0)
  have "s < 256 * 256" using s n(2)
    by (meson less_le_trans mult_le_mono1)
  then have us: "unat (of_nat s :: u16) = s"
    by (simp add: unat_of_nat)
  have x: "s mod unat n < 256" using n0 n(2)
    by (meson less_le_trans mod_less_divisor)
  have y: "s div unat n < 256" using s n0
    by (simp add: less_mult_imp_div_less mult.commute)
  show "unat (apos_x (pos_of_seq n (of_nat s))) = s mod unat n"
    using x by (simp add: pos_of_seq_def unsigned_ucast_eq unat_mod us take_bit_nat_eq_self)
  show "unat (apos_y (pos_of_seq n (of_nat s))) = s div unat n"
    using y by (simp add: pos_of_seq_def unsigned_ucast_eq unat_div us take_bit_nat_eq_self)
qed

lemma pos_of_seq_inj:
  assumes n: "n \<noteq> 0" "unat n \<le> 256" and s: "s < unat n * 256" and t: "t < unat n * 256"
    and eq: "pos_of_seq n (of_nat s) = pos_of_seq n (of_nat t)"
  shows "s = t"
proof -
  have "s mod unat n = t mod unat n" "s div unat n = t div unat n"
    using pos_of_seq_coords [OF n s] pos_of_seq_coords [OF n t] eq by simp_all
  then show ?thesis
    by (metis div_mult_mod_eq)
qed

lemma pos_of_seq_not_blank:
  assumes n: "n \<noteq> 0" "unat n \<le> 256" and s: "s < unat n * 256" "0 < s"
  shows "pos_of_seq n (of_nat s) \<noteq> blankPos"
proof
  assume b: "pos_of_seq n (of_nat s) = blankPos"
  have "s mod unat n = 0" "s div unat n = 0"
    using pos_of_seq_coords [OF n s(1)] by (simp_all add: b blankPos_def)
  then have "s = 0"
    by (metis div_mult_mod_eq mult_zero_left add_0)
  with s(2) show False by simp
qed

lemma grid_fits_bound: "grid_fits gx gy n \<Longrightarrow> s \<le> n \<Longrightarrow> s < unat gx * 256"
  unfolding grid_fits_def
  by (meson le_less_trans less_le_trans mult_le_mono2)

lemma grid_fits_mono: "grid_fits gx gy n \<Longrightarrow> m \<le> n \<Longrightarrow> grid_fits gx gy m"
  unfolding grid_fits_def by simp

lemma grid_fits_cols: "grid_fits gx gy n \<Longrightarrow> unat gx \<le> 256"
  unfolding grid_fits_def by simp


lemma loadFace_at_fields [simp]:
  "atlasMap (loadFace_at fc c p f) = atlasMap f"
  "atlas_seq (loadFace_at fc c p f) = atlas_seq f"
  "nx (loadFace_at fc c p f) = nx f" "ny (loadFace_at fc c p f) = ny f"
  "px (loadFace_at fc c p f) = px f" "py (loadFace_at fc c p f) = py f"
  "filename (loadFace_at fc c p f) = filename f"
  "atlasBuf (loadFace_at fc c p f) = (atlasBuf f)(p := face_glyph fc c)"
  by (simp_all add: loadFace_at_def)

lemma loadFace_fields [simp]:
  "atlasMap (loadFace fc c f) = (atlasMap f)(c \<mapsto> pos_of_seq (nx f) (atlas_seq f))"
  "atlas_seq (loadFace fc c f) = atlas_seq f + 1"
  "nx (loadFace fc c f) = nx f" "ny (loadFace fc c f) = ny f"
  "px (loadFace fc c f) = px f" "py (loadFace fc c f) = py f"
  "filename (loadFace fc c f) = filename f"
  "atlasBuf (loadFace fc c f) = (atlasBuf f)(pos_of_seq (nx f) (atlas_seq f) := face_glyph fc c)"
  by (simp_all add: loadFace_def Let_def)

lemma load_code_geometry [simp]:
  "nx (load_code fc f c) = nx f" "ny (load_code fc f c) = ny f"
  "px (load_code fc f c) = px f" "py (load_code fc f c) = py f"
  "filename (load_code fc f c) = filename f"
  by (simp_all add: load_code_def split: option.splits)

lemma load_codes_Nil [simp]: "load_codes fc [] f = f"
  by (simp add: load_codes_def)

lemma load_codes_Cons [simp]: "load_codes fc (c # cs) f = load_codes fc cs (load_code fc f c)"
  by (simp add: load_codes_def)

lemma load_codes_geometry [simp]:
  "nx (load_codes fc cs f) = nx f" "ny (load_codes fc cs f) = ny f"
  "px (load_codes fc cs f) = px f" "py (load_codes fc cs f) = py f"
  "filename (load_codes fc cs f) = filename f"
  by (induction cs arbitrary: f; simp)+

lemma dom_load_code: "dom (atlasMap (load_code fc f c)) = insert c (dom (atlasMap f))"
  by (auto simp add: load_code_def split: option.splits)

lemma dom_load_codes: "dom (atlasMap (load_codes fc cs f)) = dom (atlasMap f) \<union> set cs"
  by (induction cs arbitrary: f) (auto simp add: dom_load_code)

lemma load_code_keeps: "atlasMap f d = Some p \<Longrightarrow> atlasMap (load_code fc f c) d = Some p"
  by (auto simp add: load_code_def split: option.splits)

lemma load_codes_keeps: "atlasMap f d = Some p \<Longrightarrow> atlasMap (load_codes fc cs f) d = Some p"
  by (induction cs arbitrary: f) (auto simp add: load_code_keeps)

lemma atlas_inv_old:
  assumes inv: "atlas_inv n f" and g: "nx f \<noteq> 0" "grid_fits (nx f) (ny f) n"
    and m: "atlasMap f c = Some p"
  shows "atlas_inv n (loadFace_at fc c p f)"
proof -
  from inv m obtain s where s: "0 < s" "s \<le> n" "p = pos_of_seq (nx f) (of_nat s)"
    unfolding atlas_inv_def by blast
  have "p \<noteq> blankPos"
    unfolding s(3)
    by (rule pos_of_seq_not_blank [OF g(1) grid_fits_cols [OF g(2)] grid_fits_bound [OF g(2) s(2)] s(1)])
  with inv show ?thesis
    unfolding atlas_inv_def by simp
qed

lemma atlas_inv_new:
  assumes inv: "atlas_inv n f" and g: "nx f \<noteq> 0" "grid_fits (nx f) (ny f) (Suc n)"
    and m: "atlasMap f c = None"
  shows "atlas_inv (Suc n) (loadFace fc c f)"
proof -
  let ?q = "pos_of_seq (nx f) (of_nat (Suc n))"
  have cols: "unat (nx f) \<le> 256" by (rule grid_fits_cols [OF g(2)])
  have seq: "atlas_seq f = of_nat (Suc n)" using inv by (simp add: atlas_inv_def)
  have q_blank: "?q \<noteq> blankPos"
    by (rule pos_of_seq_not_blank [OF g(1) cols grid_fits_bound [OF g(2) le_refl]]) simp
  have fresh: "atlasMap f d \<noteq> Some ?q" for d
  proof
    assume "atlasMap f d = Some ?q"
    with inv obtain s where s: "0 < s" "s \<le> n" "?q = pos_of_seq (nx f) (of_nat s)"
      unfolding atlas_inv_def by blast
    have "Suc n = s"
      by (rule pos_of_seq_inj [OF g(1) cols grid_fits_bound [OF g(2) le_refl]
            grid_fits_bound [OF g(2)] s(3)]) (use s(2) in simp)
    with s(2) show False by simp
  qed
  have inj: "inj_on (atlasMap f) (dom (atlasMap f))"
    using inv by (simp add: atlas_inv_def)
  have inj': "inj_on ((atlasMap f)(c \<mapsto> ?q)) (dom ((atlasMap f)(c \<mapsto> ?q)))"
  proof (rule inj_onI)
    fix a b
    assume a: "a \<in> dom ((atlasMap f)(c \<mapsto> ?q))" and b: "b \<in> dom ((atlasMap f)(c \<mapsto> ?q))"
      and e: "((atlasMap f)(c \<mapsto> ?q)) a = ((atlasMap f)(c \<mapsto> ?q)) b"
    show "a = b"
    proof (cases "a = c")
      case True
      then show ?thesis using e fresh [of b] by (auto split: if_splits)
    next
      case False
      note ac = this
      show ?thesis
      proof (cases "b = c")
        case True
        then show ?thesis using e fresh [of a] ac by (auto split: if_splits)
      next
        case False
        with ac a b e have "a \<in> dom (atlasMap f)" "b \<in> dom (atlasMap f)"
          "atlasMap f a = atlasMap f b" by auto
        with inj show ?thesis by (rule_tac inj_onD)
      qed
    qed
  qed
  have pos: "\<exists>s. 0 < s \<and> s \<le> Suc n \<and> p = pos_of_seq (nx f) (of_nat s)"
    if "((atlasMap f)(c \<mapsto> ?q)) d = Some p" for d p
  proof (cases "d = c")
    case True
    with that have "p = ?q" by simp
    then show ?thesis by blast
  next
    case False
    with that have "atlasMap f d = Some p" by simp
    with inv obtain s where "0 < s" "s \<le> n" "p = pos_of_seq (nx f) (of_nat s)"
      unfolding atlas_inv_def by blast
    then show ?thesis by (intro exI [of _ s]) simp
  qed
  have buf: "atlasBuf f blankPos = blank_glyph" using inv by (simp add: atlas_inv_def)
  show ?thesis
    unfolding atlas_inv_def
    apply (simp only: loadFace_fields seq)
    apply (intro conjI)
    subgoal by simp
    subgoal using pos by blast
    subgoal by (rule inj')
    subgoal using q_blank buf by simp
    done
qed

lemma load_code_step:
  assumes inv: "atlas_inv n f" and nz: "nx f \<noteq> 0"
    and g: "grid_fits (nx f) (ny f) (n + card (set (c # cs) - dom (atlasMap f)))"
  shows "\<exists>n1. atlas_inv n1 (load_code fc f c)
    \<and> n1 + card (set cs - dom (atlasMap (load_code fc f c)))
        = n + card (set (c # cs) - dom (atlasMap f))"
proof (cases "atlasMap f c")
  case None
  then have cnd: "c \<notin> dom (atlasMap f)" by auto
  have split: "set (c # cs) - dom (atlasMap f) = insert c (set cs - insert c (dom (atlasMap f)))"
    using cnd by auto
  have card: "card (set (c # cs) - dom (atlasMap f)) = Suc (card (set cs - insert c (dom (atlasMap f))))"
    unfolding split by simp
  have lc: "load_code fc f c = loadFace fc c f" using None by (simp add: load_code_def)
  have inv1: "atlas_inv (Suc n) (loadFace fc c f)"
    by (rule atlas_inv_new [OF inv nz grid_fits_mono [OF g] None]) (unfold card, simp)
  show ?thesis
    unfolding lc dom_load_code [of fc f c, unfolded lc] card
    using inv1 by (intro exI [of _ "Suc n"]) simp
next
  case (Some p)
  then have cd: "c \<in> dom (atlasMap f)" by auto
  have same: "set (c # cs) - dom (atlasMap f) = set cs - dom (atlasMap f)"
    using cd by auto
  have lc: "load_code fc f c = loadFace_at fc c p f" using Some by (simp add: load_code_def)
  have inv1: "atlas_inv n (loadFace_at fc c p f)"
    by (rule atlas_inv_old [OF inv nz grid_fits_mono [OF g] Some]) simp
  show ?thesis
    unfolding lc same
    using inv1 by (intro exI [of _ n]) simp
qed

lemma atlas_inv_load_codes:
  assumes "atlas_inv n f" "nx f \<noteq> 0"
    "grid_fits (nx f) (ny f) (n + card (set cs - dom (atlasMap f)))"
  shows "atlas_inv (n + card (set cs - dom (atlasMap f))) (load_codes fc cs f)"
  using assms
proof (induction cs arbitrary: f n)
  case Nil
  then show ?case by simp
next
  case (Cons c cs)
  from load_code_step [OF Cons.prems, of fc] obtain n1 where
    n1: "atlas_inv n1 (load_code fc f c)"
      "n1 + card (set cs - dom (atlasMap (load_code fc f c)))
        = n + card (set (c # cs) - dom (atlasMap f))"
    by blast
  have "atlas_inv (n1 + card (set cs - dom (atlasMap (load_code fc f c))))
          (load_codes fc cs (load_code fc f c))"
    by (rule Cons.IH [OF n1(1)]) (use Cons.prems n1(2) in simp_all)
  then show ?case
    by (simp only: n1(2) load_codes_Cons)
qed

lemma load_code_writes:
  "\<exists>q. atlasMap (load_code fc f c) c = Some q
     \<and> atlasBuf (load_code fc f c) = (atlasBuf f)(q := face_glyph fc c)"
  by (cases "atlasMap f c") (simp_all add: load_code_def)

lemma load_codes_buffer:
  assumes "atlas_inv n f" "nx f \<noteq> 0"
    "grid_fits (nx f) (ny f) (n + card (set cs - dom (atlasMap f)))"
  shows "(\<forall>c \<in> set cs. \<exists>p. atlasMap (load_codes fc cs f) c = Some p
            \<and> atlasBuf (load_codes fc cs f) p = face_glyph fc c)
       \<and> (\<forall>p. (\<forall>c \<in> set cs. atlasMap (load_codes fc cs f) c \<noteq> Some p)
            \<longrightarrow> atlasBuf (load_codes fc cs f) p = atlasBuf f p)"
  using assms
proof (induction cs arbitrary: f n)
  case Nil
  then show ?case by simp
next
  case (Cons c cs)
  let ?f1 = "load_code fc f c"
  let ?res = "load_codes fc cs ?f1"
  from load_code_step [OF Cons.prems, of fc] obtain n1 where
    n1: "atlas_inv n1 ?f1"
      "n1 + card (set cs - dom (atlasMap ?f1)) = n + card (set (c # cs) - dom (atlasMap f))"
    by blast
  have nz1: "nx ?f1 \<noteq> 0" using Cons.prems(2) by simp
  have g1: "grid_fits (nx ?f1) (ny ?f1) (n1 + card (set cs - dom (atlasMap ?f1)))"
    using Cons.prems(3) n1(2) by simp
  have IH1: "\<forall>d \<in> set cs. \<exists>p. atlasMap ?res d = Some p \<and> atlasBuf ?res p = face_glyph fc d"
    and IH2: "\<forall>p. (\<forall>d \<in> set cs. atlasMap ?res d \<noteq> Some p) \<longrightarrow> atlasBuf ?res p = atlasBuf ?f1 p"
    using Cons.IH [OF n1(1) nz1 g1] by blast+
  from load_code_writes [of fc f c] obtain q where
    q: "atlasMap ?f1 c = Some q" "atlasBuf ?f1 = (atlasBuf f)(q := face_glyph fc c)"
    by blast
  have resq: "atlasMap ?res c = Some q"
    by (rule load_codes_keeps [OF q(1)])
  have "atlas_inv (n1 + card (set cs - dom (atlasMap ?f1))) ?res"
    by (rule atlas_inv_load_codes [OF n1(1) nz1 g1])
  then have inj: "inj_on (atlasMap ?res) (dom (atlasMap ?res))"
    by (simp add: atlas_inv_def)
  have part2: "atlasBuf ?res p = atlasBuf f p"
    if "\<forall>d \<in> set (c # cs). atlasMap ?res d \<noteq> Some p" for p
  proof -
    from that have "p \<noteq> q" using resq by auto
    moreover from that IH2 have "atlasBuf ?res p = atlasBuf ?f1 p" by simp
    ultimately show ?thesis by (simp add: q(2))
  qed
  have part1: "\<exists>p. atlasMap ?res d = Some p \<and> atlasBuf ?res p = face_glyph fc d"
    if "d \<in> set (c # cs)" for d
  proof (cases "d \<in> set cs")
    case True
    with IH1 show ?thesis by blast
  next
    case False
    with that have dc: "d = c" by simp
    have "atlasMap ?res e \<noteq> Some q" if "e \<in> set cs" for e
    proof
      assume "atlasMap ?res e = Some q"
      with resq have "atlasMap ?res e = atlasMap ?res c" "e \<in> dom (atlasMap ?res)"
        "c \<in> dom (atlasMap ?res)" by auto
      with inj have "e = c" by (meson inj_onD)
      with that False dc show False by simp
    qed
    with IH2 have "atlasBuf ?res q = atlasBuf ?f1 q" by blast
    then have "atlasBuf ?res q = face_glyph fc c" by (simp add: q(2))
    with resq dc show ?thesis by blast
  qed
  show ?case
    unfolding load_codes_Cons using part1 part2 by blast
qed

lemma load_codes_map:
  "atlasMap (load_codes fc cs f) c =
     (case atlasMap f c of
        Some p \<Rightarrow> Some p
      | None \<Rightarrow>
          if c \<in> set cs
          then Some (pos_of_seq (nx f)
                 (atlas_seq f + of_nat (card (set (takeWhile (\<lambda>d. d \<noteq> c) cs) - dom (atlasMap f)))))
          else None)"
proof (induction cs arbitrary: f)
  case Nil
  then show ?case by (simp split: option.splits)
next
  case (Cons c0 cs)
  show ?case
  proof (cases "atlasMap f c")
    case (Some p)
    from load_codes_keeps [OF this, of fc "c0 # cs"] show ?thesis by (simp add: Some)
  next
    case None
    note cNone = this
    show ?thesis
    proof (cases "c = c0")
      case True
      have lc: "load_code fc f c0 = loadFace fc c0 f"
        using None True by (simp add: load_code_def)
      have "atlasMap (loadFace fc c0 f) c0 = Some (pos_of_seq (nx f) (atlas_seq f))" by simp
      from load_codes_keeps [OF this, of fc cs] show ?thesis
        using None True by (simp add: lc del: loadFace_fields)
    next
      case False
      then have tw: "takeWhile (\<lambda>d. d \<noteq> c) (c0 # cs) = c0 # takeWhile (\<lambda>d. d \<noteq> c) cs"
        by simp
      have mem: "(c \<in> set (c0 # cs)) = (c \<in> set cs)" using False by simp
      let ?T = "set (takeWhile (\<lambda>d. d \<noteq> c) cs)"
      show ?thesis
      proof (cases "atlasMap f c0")
        case (Some p0)
        then have lc: "load_code fc f c0 = loadFace_at fc c0 p0 f" by (simp add: load_code_def)
        have "set (c0 # takeWhile (\<lambda>d. d \<noteq> c) cs) - dom (atlasMap f) = ?T - dom (atlasMap f)"
          using Some by auto
        then show ?thesis
          unfolding load_codes_Cons lc tw mem Cons.IH [of "loadFace_at fc c0 p0 f"]
          by (simp only: loadFace_at_fields)
      next
        case None
        then have lc: "load_code fc f c0 = loadFace fc c0 f" by (simp add: load_code_def)
        have d1: "dom (atlasMap (loadFace fc c0 f)) = insert c0 (dom (atlasMap f))" by simp
        have m1: "atlasMap (loadFace fc c0 f) c = atlasMap f c" using False by simp
        have "set (c0 # takeWhile (\<lambda>d. d \<noteq> c) cs) - dom (atlasMap f)
                = insert c0 (?T - insert c0 (dom (atlasMap f)))"
          using None by auto
        then have card: "card (set (c0 # takeWhile (\<lambda>d. d \<noteq> c) cs) - dom (atlasMap f))
                = Suc (card (?T - insert c0 (dom (atlasMap f))))"
          by simp
        show ?thesis
          unfolding load_codes_Cons lc tw mem Cons.IH [of "loadFace fc c0 f"] m1 d1 card cNone
          by (simp only: loadFace_fields(2,3) of_nat_Suc add.assoc add.commute [of 1])
      qed
    qed
  qed
qed

lemma load_codes_seq:
  "atlas_seq (load_codes fc cs f) = atlas_seq f + of_nat (card (set cs - dom (atlasMap f)))"
proof (induction cs arbitrary: f)
  case Nil
  then show ?case by simp
next
  case (Cons c0 cs)
  show ?case
  proof (cases "atlasMap f c0")
    case (Some p0)
    then have lc: "load_code fc f c0 = loadFace_at fc c0 p0 f" by (simp add: load_code_def)
    have "set (c0 # cs) - dom (atlasMap f) = set cs - dom (atlasMap f)"
      using Some by auto
    then show ?thesis
      by (simp only: load_codes_Cons lc Cons.IH loadFace_at_fields)
  next
    case None
    then have lc: "load_code fc f c0 = loadFace fc c0 f" by (simp add: load_code_def)
    have d1: "dom (atlasMap (loadFace fc c0 f)) = insert c0 (dom (atlasMap f))" by simp
    have "set (c0 # cs) - dom (atlasMap f) = insert c0 (set cs - insert c0 (dom (atlasMap f)))"
      using None by auto
    then have "card (set (c0 # cs) - dom (atlasMap f))
                 = Suc (card (set cs - insert c0 (dom (atlasMap f))))"
      by simp
    then show ?thesis
      by (simp only: load_codes_Cons lc Cons.IH d1 loadFace_fields(2) of_nat_Suc add.assoc
          add.commute [of 1])
  qed
qed

lemma empty_Font_fields [simp]:
  "atlasMap (empty_Font fname) = Map.empty" "atlas_seq (empty_Font fname) = 1"
  "atlasBuf (empty_Font fname) = (\<lambda>p. blank_glyph)" "filename (empty_Font fname) = fname"
  by (simp_all add: empty_Font_def)

lemma atlas_inv_empty: "atlas_inv 0 ((empty_Font fname)\<lparr>px := a, py := b, nx := c, ny := d\<rparr>)"
  by (simp add: atlas_inv_def empty_Font_def)

lemma atlas_inv_filename [simp]: "atlas_inv n (f\<lparr>filename := fname\<rparr>) = atlas_inv n f"
  by (simp add: atlas_inv_def)

lemma atlas_inv_not_blank:
  assumes "atlas_inv n f" "nx f \<noteq> 0" "grid_fits (nx f) (ny f) n" "atlasMap f c = Some p"
  shows "p \<noteq> blankPos"
proof -
  from assms(1,4) obtain s where s: "0 < s" "s \<le> n" "p = pos_of_seq (nx f) (of_nat s)"
    unfolding atlas_inv_def by blast
  show ?thesis
    unfolding s(3)
    by (rule pos_of_seq_not_blank [OF assms(2) grid_fits_cols [OF assms(3)]
          grid_fits_bound [OF assms(3) s(2)] s(1)])
qed

lemma Font_primary_eq:
  "files fname = Some fc \<Longrightarrow>
     Font_primary files fname =
       Inr (load_codes fc (face_codes fc)
              ((empty_Font fname)\<lparr>px := face_px fc, py := face_py fc,
                                  nx := face_nx fc, ny := face_ny fc\<rparr>))"
  by (simp add: Font_primary_def load_def)

lemma Font_alternate_eq:
  "files fname = Some fc \<Longrightarrow> face_geometry fc = font_geometry priFont \<Longrightarrow>
     Font_alternate files fname priFont =
       Inr (overlay_codes fc (face_codes fc) (priFont\<lparr>filename := fname\<rparr>))"
  by (simp add: Font_alternate_def load_def font_geometry_def)

lemma overlay_codes_Nil [simp]: "overlay_codes fc [] f = f"
  by (simp add: overlay_codes_def)

lemma overlay_codes_Cons [simp]:
  "overlay_codes fc (c # cs) f = overlay_codes fc cs (overlay_code fc f c)"
  by (simp add: overlay_codes_def)

lemma overlay_code_map [simp]: "atlasMap (overlay_code fc f c) = atlasMap f"
  by (simp add: overlay_code_def split: option.splits)

lemma overlay_codes_map [simp]: "atlasMap (overlay_codes fc cs f) = atlasMap f"
  by (induction cs arbitrary: f) simp_all

text \<open>An overlay load is the load of the code points that have a cell.\<close>

lemma overlay_codes_eq:
  "overlay_codes fc cs f = load_codes fc (filter (\<lambda>c. atlasMap f c \<noteq> None) cs) f"
proof (induction cs arbitrary: f)
  case Nil
  then show ?case by simp
next
  case (Cons c cs)
  show ?case
  proof (cases "atlasMap f c")
    case None
    then have "overlay_code fc f c = f" by (simp add: overlay_code_def)
    then show ?thesis using None Cons.IH [of f] by simp
  next
    case (Some p)
    then have e: "overlay_code fc f c = load_code fc f c"
      by (simp add: overlay_code_def load_code_def)
    have m: "atlasMap (load_code fc f c) = atlasMap f"
      using Some by (simp add: load_code_def)
    show ?thesis
      using Some Cons.IH [of "load_code fc f c"] by (simp add: e m)
  qed
qed

text \<open>What holds of a primary font built from a face that fits its grid.\<close>

lemma primary_built:
  assumes opened: "files fname = Some fc" and nz: "face_nx fc \<noteq> 0"
    and fits: "grid_fits (face_nx fc) (face_ny fc) (card (set (face_codes fc)))"
  shows "\<exists>pri. Font_primary files fname = Inr pri
    \<and> atlas_inv (card (set (face_codes fc))) pri
    \<and> font_geometry pri = face_geometry fc
    \<and> dom (atlasMap pri) = set (face_codes fc)
    \<and> (\<forall>c \<in> set (face_codes fc). \<exists>p. atlasMap pri c = Some p \<and> atlasBuf pri p = face_glyph fc c)"
proof -
  let ?f0 = "(empty_Font fname)\<lparr>px := face_px fc, py := face_py fc,
                                  nx := face_nx fc, ny := face_ny fc\<rparr>"
  let ?pri = "load_codes fc (face_codes fc) ?f0"
  have d0: "dom (atlasMap ?f0) = {}" by simp
  have nz0: "nx ?f0 \<noteq> 0" using nz by simp
  have g0: "grid_fits (nx ?f0) (ny ?f0) (0 + card (set (face_codes fc) - dom (atlasMap ?f0)))"
    using fits by (simp add: d0)
  have inv: "atlas_inv (0 + card (set (face_codes fc) - dom (atlasMap ?f0))) ?pri"
    by (rule atlas_inv_load_codes [OF atlas_inv_empty nz0 g0])
  have buf: "\<forall>c \<in> set (face_codes fc). \<exists>p. atlasMap ?pri c = Some p \<and> atlasBuf ?pri p = face_glyph fc c"
    using load_codes_buffer [OF atlas_inv_empty nz0 g0, of fc] by blast
  have "Font_primary files fname = Inr ?pri"
    using opened by (rule Font_primary_eq [where files = files and fname = fname])
  moreover have "atlas_inv (card (set (face_codes fc))) ?pri" using inv by (simp add: d0)
  moreover have "font_geometry ?pri = face_geometry fc"
    by (simp add: font_geometry_def face_geometry_def)
  moreover have "dom (atlasMap ?pri) = set (face_codes fc)"
    by (simp add: dom_load_codes d0)
  ultimately show ?thesis using buf by blast
qed

text \<open>What holds of an alternate font overlaid on a font that satisfies the invariant.\<close>

lemma alternate_built:
  assumes inv: "atlas_inv n pri" and nz: "nx pri \<noteq> 0"
    and opened: "files fname = Some fc" and geo: "face_geometry fc = font_geometry pri"
    and fits: "grid_fits (nx pri) (ny pri) n"
  shows "\<exists>alt. Font_alternate files fname pri = Inr alt
    \<and> alt = overlay_codes fc (face_codes fc) (pri\<lparr>filename := fname\<rparr>)
    \<and> atlas_inv n alt
    \<and> font_geometry alt = font_geometry pri
    \<and> atlasMap alt = atlasMap pri
    \<and> (\<forall>c \<in> set (face_codes fc). \<forall>p. atlasMap pri c = Some p \<longrightarrow> atlasBuf alt p = face_glyph fc c)
    \<and> (\<forall>p. (\<forall>c \<in> set (face_codes fc). atlasMap pri c \<noteq> Some p) \<longrightarrow> atlasBuf alt p = atlasBuf pri p)"
proof -
  let ?f0 = "pri\<lparr>filename := fname\<rparr>"
  let ?cs = "filter (\<lambda>c. atlasMap ?f0 c \<noteq> None) (face_codes fc)"
  let ?alt = "overlay_codes fc (face_codes fc) ?f0"
  have alt: "?alt = load_codes fc ?cs ?f0" by (rule overlay_codes_eq)
  have m: "atlasMap ?alt = atlasMap pri" by simp
  have inv0: "atlas_inv n ?f0" using inv by simp
  have nz0: "nx ?f0 \<noteq> 0" using nz by simp
  have none: "set ?cs - dom (atlasMap ?f0) = {}" by auto
  have g0: "grid_fits (nx ?f0) (ny ?f0) (n + card (set ?cs - dom (atlasMap ?f0)))"
    using fits by (simp only: none) simp
  have i: "atlas_inv n ?alt"
    using atlas_inv_load_codes [OF inv0 nz0 g0, of fc] by (simp only: none alt) simp
  have bb: "(\<forall>c \<in> set ?cs. \<exists>p. atlasMap ?alt c = Some p \<and> atlasBuf ?alt p = face_glyph fc c)
    \<and> (\<forall>p. (\<forall>c \<in> set ?cs. atlasMap ?alt c \<noteq> Some p) \<longrightarrow> atlasBuf ?alt p = atlasBuf ?f0 p)"
    using load_codes_buffer [OF inv0 nz0 g0, of fc] by (simp only: alt [symmetric])
  note b1 = bb [THEN conjunct1] and b2 = bb [THEN conjunct2]
  have w: "atlasBuf ?alt p = face_glyph fc c"
    if "c \<in> set (face_codes fc)" "atlasMap pri c = Some p" for c p
  proof -
    from that have "c \<in> set ?cs" by simp
    with b1 obtain q where "atlasMap ?alt c = Some q" "atlasBuf ?alt q = face_glyph fc c"
      by blast
    with that(2) show ?thesis by (simp only: m) simp
  qed
  have k: "atlasBuf ?alt p = atlasBuf pri p"
    if "\<forall>c \<in> set (face_codes fc). atlasMap pri c \<noteq> Some p" for p
  proof -
    from that have "\<forall>c \<in> set ?cs. atlasMap ?alt c \<noteq> Some p" by (simp only: m) simp
    with b2 have "atlasBuf ?alt p = atlasBuf ?f0 p" by blast
    then show ?thesis by simp
  qed
  have "Font_alternate files fname pri = Inr ?alt"
    using opened geo by (rule Font_alternate_eq [where files = files and fname = fname])
  moreover have "font_geometry ?alt = font_geometry pri"
    by (simp only: alt) (simp add: font_geometry_def)
  ultimately show ?thesis using i m w k by blast
qed

text \<open>A primary font and the alternate font over it, when the primary face fits the grid.\<close>

lemma pair_built:
  assumes pfile: "files pname = Some fcP" and afile: "files aname = Some fcA"
    and geo: "face_geometry fcA = face_geometry fcP" and nz: "face_nx fcP \<noteq> 0"
    and fits: "grid_fits (face_nx fcP) (face_ny fcP) (card (set (face_codes fcP)))"
  shows "\<exists>pri alt. Font_primary files pname = Inr pri
    \<and> Font_alternate files aname pri = Inr alt
    \<and> alt = overlay_codes fcA (face_codes fcA) (pri\<lparr>filename := aname\<rparr>)
    \<and> font_geometry pri = face_geometry fcP
    \<and> font_geometry alt = face_geometry fcP
    \<and> dom (atlasMap pri) = set (face_codes fcP)
    \<and> atlasMap alt = atlasMap pri
    \<and> (\<forall>c p. atlasMap pri c = Some p \<longrightarrow> p \<noteq> blankPos)
    \<and> atlasBuf pri blankPos = blank_glyph \<and> atlasBuf alt blankPos = blank_glyph
    \<and> inj_on (atlasMap pri) (dom (atlasMap pri))
    \<and> (\<forall>c \<in> set (face_codes fcP). \<exists>p. atlasMap pri c = Some p \<and> atlasBuf pri p = face_glyph fcP c)
    \<and> (\<forall>c \<in> set (face_codes fcA). \<forall>p. atlasMap pri c = Some p \<longrightarrow> atlasBuf alt p = face_glyph fcA c)
    \<and> (\<forall>p. (\<forall>c \<in> set (face_codes fcA). atlasMap pri c \<noteq> Some p) \<longrightarrow> atlasBuf alt p = atlasBuf pri p)"
proof -
  let ?n = "card (set (face_codes fcP))"
  from primary_built [where files = files and fname = pname, OF pfile nz fits]
  obtain pri where
    pri: "Font_primary files pname = Inr pri" "atlas_inv ?n pri"
      "font_geometry pri = face_geometry fcP" "dom (atlasMap pri) = set (face_codes fcP)"
      "\<forall>c \<in> set (face_codes fcP). \<exists>p. atlasMap pri c = Some p \<and> atlasBuf pri p = face_glyph fcP c"
    by - (elim exE conjE, rule that; assumption)
  have nxy: "nx pri = face_nx fcP" "ny pri = face_ny fcP"
    using pri(3) by (simp_all add: font_geometry_def face_geometry_def)
  have nzp: "nx pri \<noteq> 0" using nz nxy by simp
  have fitsp: "grid_fits (nx pri) (ny pri) ?n" using fits nxy by simp
  have geoA: "face_geometry fcA = font_geometry pri" using geo pri(3) by simp
  from alternate_built [where files = files and fname = aname, OF pri(2) nzp afile geoA fitsp]
  obtain alt where
    alt: "Font_alternate files aname pri = Inr alt"
      "alt = overlay_codes fcA (face_codes fcA) (pri\<lparr>filename := aname\<rparr>)"
      "atlas_inv ?n alt"
      "font_geometry alt = font_geometry pri"
      "atlasMap alt = atlasMap pri"
      "\<forall>c \<in> set (face_codes fcA). \<forall>p. atlasMap pri c = Some p \<longrightarrow> atlasBuf alt p = face_glyph fcA c"
      "\<forall>p. (\<forall>c \<in> set (face_codes fcA). atlasMap pri c \<noteq> Some p) \<longrightarrow> atlasBuf alt p = atlasBuf pri p"
    by - (elim exE conjE, rule that; assumption)
  have nbp: "\<forall>c p. atlasMap pri c = Some p \<longrightarrow> p \<noteq> blankPos"
    using atlas_inv_not_blank [OF pri(2) nzp fitsp] by blast
  have bl: "atlasBuf pri blankPos = blank_glyph" "atlasBuf alt blankPos = blank_glyph"
    "inj_on (atlasMap pri) (dom (atlasMap pri))"
    using pri(2) alt(3) by (simp_all add: atlas_inv_def)
  have ga: "font_geometry alt = face_geometry fcP"
    using alt(4) pri(3) by simp
  show ?thesis
    apply (rule exI [of _ pri], rule exI [of _ alt])
    apply (intro conjI)
    apply (rule pri(1) alt(1) alt(2) pri(3) ga pri(4) alt(5) nbp bl pri(5) alt(6) alt(7))+
    done
qed

lemma seq_of_first:
  "c \<notin> set xs \<Longrightarrow> seq_of (xs @ c # ys) c = Suc (card (set xs))"
proof -
  assume "c \<notin> set xs"
  then have "takeWhile (\<lambda>d. d \<noteq> c) (xs @ c # ys) = xs"
    by (induction xs) auto
  then show ?thesis by (simp add: seq_of_def)
qed

lemma seq_of_bounds:
  assumes "c \<in> set cs"
  shows "1 \<le> seq_of cs c" and "seq_of cs c \<le> card (set cs)"
proof -
  show "1 \<le> seq_of cs c" by (simp add: seq_of_def)
  from assms obtain xs ys where s: "cs = xs @ c # ys" "c \<notin> set xs"
    by (meson split_list_first)
  have "set xs \<subset> set cs" using s by auto
  then have "card (set xs) < card (set cs)"
    by (simp add: psubset_card_mono)
  then show "seq_of cs c \<le> card (set cs)"
    unfolding s(1) seq_of_first [OF s(2)] using s(1) by simp
qed

lemma seq_of_increases:
  assumes "cs = xs @ c # ys @ d # zs" "c \<notin> set xs" "d \<notin> set (xs @ c # ys)"
  shows "seq_of cs c < seq_of cs d"
proof -
  have c: "seq_of cs c = Suc (card (set xs))"
    unfolding assms(1) by (rule seq_of_first [OF assms(2)])
  have "cs = (xs @ c # ys) @ d # zs" using assms(1) by simp
  then have d: "seq_of cs d = Suc (card (set (xs @ c # ys)))"
    using seq_of_first [OF assms(3)] by simp
  have "set xs \<subset> set (xs @ c # ys)" using assms(2) by auto
  then have "card (set xs) < card (set (xs @ c # ys))"
    by (simp add: psubset_card_mono)
  then show ?thesis unfolding c d by simp
qed

lemma primary_map:
  assumes "files fname = Some fc" "Font_primary files fname = Inr f"
  shows "atlasMap f c =
           (if c \<in> set (face_codes fc)
            then Some (pos_of_seq (nx f) (of_nat (seq_of (face_codes fc) c))) else None)"
    and "atlas_seq f = of_nat (Suc (card (set (face_codes fc))))"
    and "nx f = face_nx fc"
proof -
  let ?f0 = "(empty_Font fname)\<lparr>px := face_px fc, py := face_py fc,
                                  nx := face_nx fc, ny := face_ny fc\<rparr>"
  have f: "f = load_codes fc (face_codes fc) ?f0"
    using assms(2) Font_primary_eq [where files = files and fname = fname, OF assms(1)] by simp
  show "nx f = face_nx fc" by (simp add: f)
  show "atlasMap f c =
           (if c \<in> set (face_codes fc)
            then Some (pos_of_seq (nx f) (of_nat (seq_of (face_codes fc) c))) else None)"
    unfolding f load_codes_map by (simp add: seq_of_def)
  show "atlas_seq f = of_nat (Suc (card (set (face_codes fc))))"
    unfolding f load_codes_seq by simp
qed

lemma regular_file: "font_files ''9x18'' = Some regular_face"
  by (simp add: font_files_def)

lemma bold_file: "font_files ''9x18B'' = Some bold_face"
  by (simp add: font_files_def)

lemma wide_file: "font_files ''10x18B'' = Some wide_face"
  by (simp add: font_files_def)

lemma bold_geometry: "face_geometry bold_face = face_geometry regular_face"
  by (simp add: face_geometry_def bold_face_def regular_face_def)

lemma regular_columns: "face_nx regular_face \<noteq> 0"
  by (simp add: regular_face_def)

lemma regular_fits:
  "grid_fits (face_nx regular_face) (face_ny regular_face) (card (set (face_codes regular_face)))"
  by (simp add: grid_fits_def regular_face_def)

text \<open>
  Claim C6. While a primary atlas is built from a face that fits its grid, cells are
  handed out in increasing sequence
  order starting at 1, cell 0 staying the blank: the code point first encountered
  after the code points \<open>xs\<close> gets sequence number \<open>1 + card (set xs)\<close>, a later first
  encounter gets a larger one, and afterwards \<open>atlas_seq\<close> is one more than the number of
  distinct code points. The cell of sequence number \<open>s\<close> is the grid slot in (x,y)
  order, column \<open>s mod nx\<close> of row \<open>s div nx\<close>. The order is that of first encounter,
  whatever the numeric order of the code points.
\<close>

theorem atlas_cells_assigned_in_sequence:
  assumes opened: "files fname = Some fc" and nz: "face_nx fc \<noteq> 0"
    and fits: "grid_fits (face_nx fc) (face_ny fc) (card (set (face_codes fc)))"
  shows "\<exists>f. Font_primary files fname = Inr f
    \<and> font_geometry f = face_geometry fc
    \<and> (\<forall>c. atlasMap f c =
           (if c \<in> set (face_codes fc)
            then Some (pos_of_seq (nx f) (of_nat (seq_of (face_codes fc) c))) else None))
    \<and> atlas_seq f = of_nat (Suc (card (set (face_codes fc))))
    \<and> (\<forall>xs c ys. face_codes fc = xs @ c # ys \<and> c \<notin> set xs \<longrightarrow>
          seq_of (face_codes fc) c = Suc (card (set xs)))
    \<and> (\<forall>xs c ys d zs. face_codes fc = xs @ c # ys @ d # zs \<and> c \<notin> set xs
            \<and> d \<notin> set (xs @ c # ys) \<longrightarrow>
          seq_of (face_codes fc) c < seq_of (face_codes fc) d)
    \<and> (\<forall>c. c \<in> set (face_codes fc) \<longrightarrow>
          1 \<le> seq_of (face_codes fc) c \<and> seq_of (face_codes fc) c \<le> card (set (face_codes fc)))
    \<and> (\<forall>c p. atlasMap f c = Some p \<longrightarrow>
          unat (apos_x p) = seq_of (face_codes fc) c mod unat (nx f)
          \<and> unat (apos_y p) = seq_of (face_codes fc) c div unat (nx f))
    \<and> (\<forall>c p. atlasMap f c = Some p \<longrightarrow> p \<noteq> blankPos)
    \<and> atlasBuf f blankPos = blank_glyph"
proof -
  let ?cs = "face_codes fc"
  from primary_built [where files = files and fname = fname, OF opened nz fits]
  obtain f where f: "Font_primary files fname = Inr f" "atlas_inv (card (set ?cs)) f"
    "font_geometry f = face_geometry fc"
    by blast
  note m = primary_map [where files = files and fname = fname, OF opened f(1)]
  have nxy: "nx f = face_nx fc" "ny f = face_ny fc"
    using f(3) by (simp_all add: font_geometry_def face_geometry_def)
  have nzf: "nx f \<noteq> 0" using nz nxy by simp
  have fitsf: "grid_fits (nx f) (ny f) (card (set ?cs))" using fits nxy by simp
  have coords: "unat (apos_x p) = seq_of ?cs c mod unat (nx f)
          \<and> unat (apos_y p) = seq_of ?cs c div unat (nx f)"
    if "atlasMap f c = Some p" for c p
  proof -
    from that m(1) [of c] have c: "c \<in> set ?cs"
      and p: "p = pos_of_seq (nx f) (of_nat (seq_of ?cs c))"
      by (auto split: if_splits)
    have b: "seq_of ?cs c < unat (nx f) * 256"
      by (rule grid_fits_bound [OF fitsf seq_of_bounds(2) [OF c]])
    show ?thesis
      unfolding p using pos_of_seq_coords [OF nzf grid_fits_cols [OF fitsf] b] by simp
  qed
  have nb: "p \<noteq> blankPos" if "atlasMap f c = Some p" for c p
    by (rule atlas_inv_not_blank [OF f(2) nzf fitsf that])
  have bl: "atlasBuf f blankPos = blank_glyph" using f(2) by (simp add: atlas_inv_def)
  show ?thesis
    apply (rule exI [of _ f])
    apply (intro conjI allI impI)
    subgoal by (rule f(1))
    subgoal by (rule f(3))
    subgoal by (rule m(1))
    subgoal by (rule m(2))
    subgoal by (elim conjE) (simp add: seq_of_first)
    subgoal for xs c ys d zs by (elim conjE) (rule seq_of_increases)
    subgoal by (rule seq_of_bounds(1))
    subgoal by (rule seq_of_bounds(2))
    subgoal using coords by blast
    subgoal using coords by blast
    subgoal using nb by blast
    subgoal by (rule bl)
    done
qed

theorem atlas_cells_assigned_in_sequence_witness:
  "font_files ''9x18'' = Some regular_face \<and> face_nx regular_face \<noteq> 0
   \<and> grid_fits (face_nx regular_face) (face_ny regular_face) (card (set (face_codes regular_face)))
   \<and> (\<exists>f. Font_primary font_files ''9x18'' = Inr f
         \<and> atlasMap f 66 = Some (AtlasPos 1 0) \<and> atlasMap f 65 = Some (AtlasPos 0 1)
         \<and> atlasMap f 67 = None \<and> atlas_seq f = 3)"
proof -
  from atlas_cells_assigned_in_sequence [where files = font_files and fname = "''9x18''", OF regular_file regular_columns regular_fits]
  obtain f where f: "Font_primary font_files ''9x18'' = Inr f"
    "font_geometry f = face_geometry regular_face"
    "\<forall>c. atlasMap f c =
           (if c \<in> set (face_codes regular_face)
            then Some (pos_of_seq (nx f) (of_nat (seq_of (face_codes regular_face) c))) else None)"
    "atlas_seq f = of_nat (Suc (card (set (face_codes regular_face))))"
    by - (elim exE conjE, rule that; assumption)
  have n: "nx f = 2"
    using f(2) by (simp add: font_geometry_def face_geometry_def regular_face_def)
  have "atlasMap f 66 = Some (AtlasPos 1 0)" "atlasMap f 65 = Some (AtlasPos 0 1)"
    "atlasMap f 67 = None" "atlas_seq f = 3"
    by (simp_all add: f(3) f(4) n regular_face_def seq_of_def pos_of_seq_def)
  with f(1) regular_file regular_columns regular_fits show ?thesis by blast
qed

text \<open>
  Claim C2. When the face of an alternate font yields another glyph cell size or atlas
  grid than the primary font has, the constructor fails with the geometry error; it
  returns no font at all.
\<close>

theorem alternate_geometry_mismatch_fails:
  assumes "files fname = Some fc" and "face_geometry fc \<noteq> font_geometry priFont"
  shows "Font_alternate files fname priFont = Inl GeometryMismatch
    \<and> (\<forall>alt. Font_alternate files fname priFont \<noteq> Inr alt)"
  using assms by (simp add: Font_alternate_def load_def font_geometry_def)

theorem alternate_geometry_mismatch_fails_witness:
  "font_files ''10x18B'' = Some wide_face
   \<and> face_geometry wide_face \<noteq> font_geometry font_9x18
   \<and> Font_alternate font_files ''10x18B'' font_9x18 = Inl GeometryMismatch"
proof -
  have g: "face_geometry wide_face \<noteq> font_geometry font_9x18"
    by (simp add: face_geometry_def font_geometry_def wide_face_def font_9x18_def)
  from alternate_geometry_mismatch_fails [where files = font_files and fname = "''10x18B''", OF wide_file g] wide_file g
  show ?thesis by simp
qed

text \<open>
  Claim C1. With a primary font built from a face that fits its grid and an alternate
  font of the same geometry over it, a code point that neither face covers resolves to
  the blank position (0,0) in both atlas maps; no mapped code point has (0,0) as its
  position; the cell at (0,0) is blank in both atlases, so the glyph coverage sampled
  for a cell that resolves to (0,0) is zero at every offset.
\<close>

theorem missing_glyph_resolves_to_blank:
  assumes pfile: "files pname = Some fcP" and afile: "files aname = Some fcA"
    and geo: "face_geometry fcA = face_geometry fcP" and nz: "face_nx fcP \<noteq> 0"
    and fits: "grid_fits (face_nx fcP) (face_ny fcP) (card (set (face_codes fcP)))"
  shows "\<exists>pri alt. Font_primary files pname = Inr pri
    \<and> Font_alternate files aname pri = Inr alt
    \<and> (\<forall>c. c \<notin> set (face_codes fcP) \<union> set (face_codes fcA) \<longrightarrow>
          atlasLookup pri c = blankPos \<and> atlasLookup alt c = blankPos
          \<and> (\<forall>off. glyphCoverage pri c off = 0 \<and> glyphCoverage alt c off = 0))
    \<and> (\<forall>c p. atlasMap pri c = Some p \<longrightarrow> p \<noteq> blankPos)
    \<and> (\<forall>c p. atlasMap alt c = Some p \<longrightarrow> p \<noteq> blankPos)
    \<and> atlasBuf pri blankPos = blank_glyph \<and> atlasBuf alt blankPos = blank_glyph
    \<and> (\<forall>c off. atlasLookup pri c = blankPos \<longrightarrow> glyphCoverage pri c off = 0)
    \<and> (\<forall>c off. atlasLookup alt c = blankPos \<longrightarrow> glyphCoverage alt c off = 0)"
proof -
  from pair_built [where files = files and pname = pname and aname = aname, OF assms]
  obtain pri alt where b: "Font_primary files pname = Inr pri"
    "Font_alternate files aname pri = Inr alt"
    "dom (atlasMap pri) = set (face_codes fcP)"
    "atlasMap alt = atlasMap pri"
    "\<forall>c p. atlasMap pri c = Some p \<longrightarrow> p \<noteq> blankPos"
    "atlasBuf pri blankPos = blank_glyph" "atlasBuf alt blankPos = blank_glyph"
    by - (elim exE conjE, rule that; assumption)
  have nba: "\<forall>c p. atlasMap alt c = Some p \<longrightarrow> p \<noteq> blankPos"
    using b(5) by (simp only: b(4))
  have cov: "glyphCoverage pri c off = 0" if "atlasLookup pri c = blankPos" for c off
    using that b(6) by (simp add: glyphCoverage_def blank_glyph_def)
  have cova: "glyphCoverage alt c off = 0" if "atlasLookup alt c = blankPos" for c off
    using that b(7) by (simp add: glyphCoverage_def blank_glyph_def)
  have miss: "atlasLookup pri c = blankPos \<and> atlasLookup alt c = blankPos"
    if "c \<notin> set (face_codes fcP) \<union> set (face_codes fcA)" for c
  proof -
    from that b(3) have "atlasMap pri c = None" by auto
    then show ?thesis by (simp add: atlasLookup_def b(4))
  qed
  show ?thesis
    apply (rule exI [of _ pri], rule exI [of _ alt])
    apply (intro conjI)
    subgoal by (rule b(1))
    subgoal by (rule b(2))
    subgoal using miss cov cova by blast
    subgoal by (rule b(5))
    subgoal by (rule nba)
    subgoal by (rule b(6))
    subgoal by (rule b(7))
    subgoal using cov by blast
    subgoal using cova by blast
    done
qed

theorem missing_glyph_resolves_to_blank_witness:
  "font_files ''9x18'' = Some regular_face \<and> font_files ''9x18B'' = Some bold_face
   \<and> face_geometry bold_face = face_geometry regular_face \<and> face_nx regular_face \<noteq> 0
   \<and> grid_fits (face_nx regular_face) (face_ny regular_face)
        (card (set (face_codes regular_face)))
   \<and> (\<exists>pri alt. Font_primary font_files ''9x18'' = Inr pri
         \<and> Font_alternate font_files ''9x18B'' pri = Inr alt
         \<and> atlasLookup pri 69 = blankPos \<and> atlasLookup alt 69 = blankPos
         \<and> glyphCoverage pri 69 (3, 5) = 0 \<and> glyphCoverage alt 69 (3, 5) = 0)"
proof -
  from missing_glyph_resolves_to_blank [where files = font_files and pname = "''9x18''" and aname = "''9x18B''",
      OF regular_file bold_file bold_geometry regular_columns regular_fits]
  obtain pri alt where b: "Font_primary font_files ''9x18'' = Inr pri"
    "Font_alternate font_files ''9x18B'' pri = Inr alt"
    "\<forall>c. c \<notin> set (face_codes regular_face) \<union> set (face_codes bold_face) \<longrightarrow>
          atlasLookup pri c = blankPos \<and> atlasLookup alt c = blankPos
          \<and> (\<forall>off. glyphCoverage pri c off = 0 \<and> glyphCoverage alt c off = 0)"
    by - (elim exE conjE, rule that; assumption)
  have "(69 :: u16) \<notin> set (face_codes regular_face) \<union> set (face_codes bold_face)"
    by (simp add: regular_face_def bold_face_def)
  with b(3) have "atlasLookup pri 69 = blankPos" "atlasLookup alt 69 = blankPos"
    "glyphCoverage pri 69 (3, 5) = 0" "glyphCoverage alt 69 (3, 5) = 0"
    by blast+
  with b(1,2) regular_file bold_file bold_geometry regular_columns regular_fits
  show ?thesis by blast
qed



text \<open>
  Claim C8. The set of supported codes of a font is the key set of its code-point map
  restricted to the entries whose position is not (0,0). For a font that was built
  from a primary face that fits the grid, this is the whole key set, and it is the full
  set of code points that have a glyph cell: those the primary face covers, for the
  primary font and for an alternate font over it, whose map is the primary font's.
  The other accessors return the glyph cell size and atlas grid of the face, the atlas
  and the map.
\<close>

theorem supported_codes_are_mapped_keys:
  assumes pfile: "files pname = Some fcP" and afile: "files aname = Some fcA"
    and geo: "face_geometry fcA = face_geometry fcP" and nz: "face_nx fcP \<noteq> 0"
    and fits: "grid_fits (face_nx fcP) (face_ny fcP) (card (set (face_codes fcP)))"
  shows "\<exists>pri alt. Font_primary files pname = Inr pri
    \<and> Font_alternate files aname pri = Inr alt
    \<and> getSupportedCodes pri = {c. \<exists>p. getAtlasMap pri c = Some p \<and> p \<noteq> blankPos}
    \<and> getSupportedCodes alt = {c. \<exists>p. getAtlasMap alt c = Some p \<and> p \<noteq> blankPos}
    \<and> getSupportedCodes pri = dom (getAtlasMap pri)
    \<and> getSupportedCodes alt = dom (getAtlasMap alt)
    \<and> getSupportedCodes pri = set (face_codes fcP)
    \<and> getSupportedCodes alt = set (face_codes fcP)
    \<and> (getPx pri, getPy pri, getNx pri, getNy pri) = face_geometry fcP
    \<and> (getPx alt, getPy alt, getNx alt, getNy alt) = face_geometry fcP
    \<and> getAtlas pri blankPos = blank_glyph \<and> getAtlas alt blankPos = blank_glyph"
proof -
  from pair_built [where files = files and pname = pname and aname = aname, OF assms]
  obtain pri alt where b: "Font_primary files pname = Inr pri"
    "Font_alternate files aname pri = Inr alt"
    "dom (atlasMap pri) = set (face_codes fcP)"
    "atlasMap alt = atlasMap pri"
    "\<forall>c p. atlasMap pri c = Some p \<longrightarrow> p \<noteq> blankPos"
    "font_geometry pri = face_geometry fcP" "font_geometry alt = face_geometry fcP"
    "atlasBuf pri blankPos = blank_glyph" "atlasBuf alt blankPos = blank_glyph"
    by - (elim exE conjE, rule that; assumption)
  have nba: "\<forall>c p. atlasMap alt c = Some p \<longrightarrow> p \<noteq> blankPos"
    using b(5) by (simp only: b(4))
  have da: "dom (atlasMap alt) = set (face_codes fcP)"
    using b(3) by (simp only: b(4))
  have r: "getSupportedCodes f = {c. \<exists>p. getAtlasMap f c = Some p \<and> p \<noteq> blankPos}" for f
    by (auto simp add: getSupportedCodes_def getAtlasMap_def)
  have d: "getSupportedCodes f = dom (getAtlasMap f)"
    if "\<forall>c p. atlasMap f c = Some p \<longrightarrow> p \<noteq> blankPos" for f
    using that by (auto simp add: getSupportedCodes_def getAtlasMap_def)
  show ?thesis
    apply (rule exI [of _ pri], rule exI [of _ alt])
    apply (intro conjI)
    subgoal by (rule b(1))
    subgoal by (rule b(2))
    subgoal by (rule r)
    subgoal by (rule r)
    subgoal by (rule d [OF b(5)])
    subgoal by (rule d [OF nba])
    subgoal using d [OF b(5)] b(3) by (simp add: getAtlasMap_def)
    subgoal using d [OF nba] da by (simp add: getAtlasMap_def)
    subgoal using b(6) by (simp add: font_geometry_def getPx_def getPy_def getNx_def getNy_def)
    subgoal using b(7) by (simp add: font_geometry_def getPx_def getPy_def getNx_def getNy_def)
    subgoal using b(8) by (simp add: getAtlas_def)
    subgoal using b(9) by (simp add: getAtlas_def)
    done
qed

theorem supported_codes_are_mapped_keys_witness:
  "font_files ''9x18'' = Some regular_face \<and> font_files ''9x18B'' = Some bold_face
   \<and> face_geometry bold_face = face_geometry regular_face \<and> face_nx regular_face \<noteq> 0
   \<and> grid_fits (face_nx regular_face) (face_ny regular_face)
        (card (set (face_codes regular_face)))
   \<and> (\<exists>pri alt. Font_primary font_files ''9x18'' = Inr pri
         \<and> Font_alternate font_files ''9x18B'' pri = Inr alt
         \<and> getSupportedCodes pri = {65, 66} \<and> getSupportedCodes alt = {65, 66})"
proof -
  from supported_codes_are_mapped_keys [where files = font_files and pname = "''9x18''" and aname = "''9x18B''",
      OF regular_file bold_file bold_geometry regular_columns regular_fits]
  obtain pri alt where b: "Font_primary font_files ''9x18'' = Inr pri"
    "Font_alternate font_files ''9x18B'' pri = Inr alt"
    "getSupportedCodes pri = set (face_codes regular_face)"
    "getSupportedCodes alt = set (face_codes regular_face)"
    by - (elim exE conjE, rule that; assumption)
  have "getSupportedCodes pri = {65, 66}" "getSupportedCodes alt = {65, 66}"
    unfolding b(3,4) by (auto simp add: regular_face_def)
  with b(1,2) regular_file bold_file bold_geometry regular_columns regular_fits
  show ?thesis by blast
qed

end
